theory Spec2Isabelle
  imports Complex_Main "HOL-Library.Char_ord" "HOL-Library.List_Lexorder"
begin

section \<open>BerelzDashboard: bar cache, indicators, signal scorer, backtest validator\<close>

text \<open>
  A shallow embedding of the computational core of \<^verbatim>\<open>server.py\<close>. Module-level globals
  become fields of explicit state records that every operation takes and returns. Python
  floats are modelled as \<^typ>\<open>real\<close> (no rounding error, no NaN or infinity), Python
  integers as \<^typ>\<open>int\<close>, wall-clock readings are inputs of the operations. One float
  operation is modelled in double precision, bit for bit: the product \<^verbatim>\<open>confidence * 0.7\<close>
  of the ADX filter, which the source truncates to an integer, so that its rounding error
  decides the result.
\<close>

subsection \<open>Bars\<close>

text \<open>
  A bar is the dictionary \<^verbatim>\<open>{'time', 'o', 'h', 'l', 'c', 'v', 'synthetic'}\<close>. A missing
  \<^verbatim>\<open>'time'\<close> key is the empty string (\<^verbatim>\<open>bar.get('time', '')\<close>), and
  \<^verbatim>\<open>bar_synthetic\<close> is the truth value of \<^verbatim>\<open>bar.get('synthetic')\<close>. The type of the
  timestamp is a parameter: the cache and the MT5 feed use the strings
  \<^verbatim>\<open>"YYYY.MM.DD HH:MM:SS"\<close>, compared as Python compares strings.
\<close>

record 't bar =
  bar_time :: 't
  bar_o :: real
  bar_h :: real
  bar_l :: real
  bar_c :: real
  bar_v :: int
  bar_synthetic :: bool

subsection \<open>The M5 bar cache\<close>

definition M5_CACHE_MAX_BARS :: nat where
  "M5_CACHE_MAX_BARS = 2000"

text \<open>Python's \<^verbatim>\<open>xs[-n:]\<close> for a positive \<^verbatim>\<open>n\<close>: the last \<open>n\<close> elements, all of them
  when there are fewer.\<close>

definition last_n :: "nat \<Rightarrow> 'a list \<Rightarrow> 'a list" where
  "last_n n xs = drop (length xs - n) xs"

text \<open>The globals \<^verbatim>\<open>_m5_cache\<close>, \<^verbatim>\<open>_m5_cache_dirty\<close>, \<^verbatim>\<open>_m5_last_save\<close> and the
  content of the file \<^verbatim>\<open>m5_cache.json\<close> (\<open>None\<close>: absent or unreadable).\<close>

record m5_state =
  m5_cache :: "string bar list"
  m5_cache_dirty :: bool
  m5_last_save :: real
  m5_cache_file :: "string bar list option"

text \<open>The inner loop of \<^verbatim>\<open>merge_bars_into_cache\<close>: the first cached bar with the
  timestamp of \<open>bar\<close> is replaced and the loop breaks; the second component is the
  increment of \<^verbatim>\<open>updated\<close>.\<close>

fun update_existing :: "string bar \<Rightarrow> string bar list \<Rightarrow> string bar list \<times> nat" where
  "update_existing bar [] = ([], 0)"
| "update_existing bar (cb # rest) =
     (if bar_time cb = bar_time bar then (bar # rest, 1)
      else (case update_existing bar rest of (rest', u) \<Rightarrow> (cb # rest', u)))"

text \<open>The variables of the outer loop.\<close>

record merge_vars =
  mv_cache :: "string bar list"
  existing_times :: "string set"
  added :: nat
  updated :: nat

definition merge_one :: "merge_vars \<Rightarrow> string bar \<Rightarrow> merge_vars" where
  "merge_one mv bar =
     (if bar_synthetic bar then mv
      else if bar_time bar = [] then mv
      else if bar_time bar \<in> existing_times mv then
        (case update_existing bar (mv_cache mv) of
           (cache', u) \<Rightarrow> mv\<lparr>mv_cache := cache', updated := updated mv + u\<rparr>)
      else mv\<lparr>mv_cache := mv_cache mv @ [bar],
              existing_times := insert (bar_time bar) (existing_times mv),
              added := added mv + 1\<rparr>)"

definition merge_loop :: "string bar list \<Rightarrow> string bar list \<Rightarrow> merge_vars" where
  "merge_loop new_bars cache =
     foldl merge_one
       \<lparr>mv_cache = cache, existing_times = set (map bar_time cache), added = 0, updated = 0\<rparr>
       new_bars"

text \<open>\<^verbatim>\<open>merge_bars_into_cache\<close>; its return value is the cache of the returned state.\<close>

definition merge_bars_into_cache :: "string bar list \<Rightarrow> m5_state \<Rightarrow> m5_state" where
  "merge_bars_into_cache new_bars s =
     (if new_bars = [] then s
      else
        let mv = merge_loop new_bars (m5_cache s) in
        if added mv > 0 \<or> updated mv > 0 then
          s\<lparr>m5_cache := last_n M5_CACHE_MAX_BARS (sort_key bar_time (mv_cache mv)),
            m5_cache_dirty := True\<rparr>
        else s\<lparr>m5_cache := mv_cache mv\<rparr>)"

definition get_cached_bars :: "m5_state \<Rightarrow> string bar list" where
  "get_cached_bars s = m5_cache s"

text \<open>The outcome of writing a file: success, \<^verbatim>\<open>open\<close> raising (the file keeps its
  content), or \<^verbatim>\<open>json.dump\<close> raising after \<^verbatim>\<open>open\<close> truncated the file (no readable
  snapshot is left).\<close>

datatype io_outcome = Io_ok | Io_open_failed | Io_dump_failed

text \<open>\<^verbatim>\<open>save_m5_cache\<close>; \<open>now\<close> is the reading of \<^verbatim>\<open>time.time()\<close>.\<close>

definition save_m5_cache :: "io_outcome \<Rightarrow> real \<Rightarrow> m5_state \<Rightarrow> m5_state" where
  "save_m5_cache io now s =
     (if \<not> m5_cache_dirty s then s
      else case io of
        Io_ok \<Rightarrow> s\<lparr>m5_cache_file := Some (m5_cache s), m5_cache_dirty := False,
                   m5_last_save := now\<rparr>
      | Io_open_failed \<Rightarrow> s
      | Io_dump_failed \<Rightarrow> s\<lparr>m5_cache_file := None\<rparr>)"

text \<open>\<^verbatim>\<open>load_m5_cache\<close>, run when the module is initialised; \<open>cutoff\<close> is the formatted
  time seven days before the start. An absent or unreadable file gives the empty cache.\<close>

definition load_m5_cache :: "string \<Rightarrow> m5_state \<Rightarrow> m5_state" where
  "load_m5_cache cutoff s =
     (case m5_cache_file s of
        None \<Rightarrow> s\<lparr>m5_cache := []\<rparr>
      | Some data \<Rightarrow> s\<lparr>m5_cache := filter (\<lambda>b. bar_time b \<ge> cutoff) data\<rparr>)"

subsection \<open>Numbers\<close>

text \<open>\<^verbatim>\<open>round(x, n)\<close> on the reals: the nearest number with \<open>n\<close> decimals, a tie going
  to the one whose last digit is even. \<^verbatim>\<open>int(x)\<close> truncates towards zero.\<close>

definition py_round :: "real \<Rightarrow> nat \<Rightarrow> real" where
  "py_round x n =
     (let s = x * 10 ^ n; f = \<lfloor>s\<rfloor>; d = s - of_int f in
      (if d < 1 / 2 then of_int f
       else if d > 1 / 2 then of_int (f + 1)
       else if even f then of_int f else of_int (f + 1)) / 10 ^ n)"

definition py_int :: "real \<Rightarrow> int" where
  "py_int x = (if x \<ge> 0 then \<lfloor>x\<rfloor> else \<lceil>x\<rceil>)"

text \<open>The product \<^verbatim>\<open>c * 0.7\<close> of an integer and the float literal, in IEEE 754 double
  precision. The literal is the double nearest to 0.7, which is \<open>6305039478318694 / 2 ^ 53\<close>
  (\<^verbatim>\<open>0x1.6666666666666p-1\<close>). An integer below \<open>2 ^ 53\<close> in magnitude is a double
  itself, and the product of two doubles is their exact product rounded to 53 significant
  bits, a tie going to the even mantissa. \<^verbatim>\<open>bit_length\<close> is the number of binary digits.\<close>

fun bit_length :: "nat \<Rightarrow> nat" where
  "bit_length n = (if n = 0 then 0 else Suc (bit_length (n div 2)))"

declare bit_length.simps [simp del]

definition round_to_53_bits :: "nat \<Rightarrow> nat" where
  "round_to_53_bits m =
     (let ulp = 2 ^ (bit_length m - 53); q = m div ulp; r = m mod ulp in
      if 2 * r < ulp then q * ulp
      else if 2 * r > ulp then (q + 1) * ulp
      else if even q then q * ulp else (q + 1) * ulp)"

definition float_times_0_7 :: "int \<Rightarrow> real" where
  "float_times_0_7 c =
     of_int (sgn c) * real (round_to_53_bits (nat \<bar>c\<bar> * 6305039478318694)) / 2 ^ 53"

subsection \<open>The backtest validator\<close>

definition BACKTEST_SECONDS :: real where
  "BACKTEST_SECONDS = 14400"

definition MIN_MOVE_PIPS :: real where
  "MIN_MOVE_PIPS = 100"

text \<open>An entry of \<^verbatim>\<open>backtest_pending\<close>.\<close>

record pending_signal =
  ps_signal :: string
  ps_price :: real
  ps_timestamp :: real
  ps_time :: string
  ps_confidence :: int

text \<open>The dictionary \<^verbatim>\<open>backtest_results\<close>.\<close>

record backtest_counters =
  bt_total :: int
  bt_wins :: int
  bt_losses :: int
  bt_buy_wins :: int
  bt_buy_total :: int
  bt_sell_wins :: int
  bt_sell_total :: int

text \<open>An entry of the list \<^verbatim>\<open>validated\<close>.\<close>

record validated_signal =
  vs_signal :: string
  vs_entry :: real
  vs_exit :: real
  vs_pips :: real
  vs_win :: bool
  vs_time :: string

text \<open>An entry of \<^verbatim>\<open>signal_history\<close>; the reasons are defined with the scorer.\<close>

datatype reason =
    Strong_uptrend
  | Trend_turning_bullish
  | Strong_downtrend
  | Trend_turning_bearish
  | RSI_extreme_oversold real
  | RSI_oversold real
  | RSI_extreme_overbought real
  | RSI_overbought real
  | MACD_strong_bullish
  | MACD_strong_bearish
  | Below_BB_lower
  | Above_BB_upper
  | Very_strong_trend real
  | Weak_trend real

record history_entry =
  he_time :: string
  he_date :: string
  he_signal :: string
  he_price :: real
  he_confidence :: int
  he_score :: real
  he_reasons :: "reason list"
  he_prev_signal :: "string option"

text \<open>The dictionary \<^verbatim>\<open>signal_stats\<close>.\<close>

record signal_counters =
  st_total :: int
  st_correct :: int
  st_buy :: int
  st_sell :: int
  st_hold :: int

text \<open>The globals of the scorer and the validator, and the content of
  \<^verbatim>\<open>backtest_data.json\<close> (\<open>None\<close>: absent or unreadable).\<close>

record scorer_state =
  last_signal :: "string option"
  signal_history :: "history_entry list"
  signal_stats :: signal_counters
  backtest_pending :: "pending_signal list"
  backtest_results :: backtest_counters
  backtest_file :: "(pending_signal list \<times> backtest_counters) option"

definition save_backtest_data :: "io_outcome \<Rightarrow> scorer_state \<Rightarrow> scorer_state" where
  "save_backtest_data io s =
     (case io of
        Io_ok \<Rightarrow> s\<lparr>backtest_file := Some (backtest_pending s, backtest_results s)\<rparr>
      | Io_open_failed \<Rightarrow> s
      | Io_dump_failed \<Rightarrow> s\<lparr>backtest_file := None\<rparr>)"

text \<open>The body of the loop of \<^verbatim>\<open>validate_backtest\<close> for one entry of the copy
  \<^verbatim>\<open>backtest_pending[:]\<close>. The loop variables are the live queue, the counters and the
  list \<^verbatim>\<open>validated\<close>; \<^verbatim>\<open>list.remove\<close> deletes the first entry equal to its argument.\<close>

definition validate_one ::
  "real \<Rightarrow> real \<Rightarrow> pending_signal list \<times> backtest_counters \<times> validated_signal list \<Rightarrow>
   pending_signal \<Rightarrow> pending_signal list \<times> backtest_counters \<times> validated_signal list" where
  "validate_one now current_price acc pending =
     (case acc of (queue, res, validated) \<Rightarrow>
      if now - ps_timestamp pending \<ge> BACKTEST_SECONDS then
        let entry_price = ps_price pending;
            signal = ps_signal pending;
            (pips, win, res1) =
              (if signal = ''BUY'' then
                 let pips = (current_price - entry_price) * 100;
                     win = (pips \<ge> MIN_MOVE_PIPS);
                     r = res\<lparr>bt_buy_total := bt_buy_total res + 1\<rparr>
                 in (pips, win, if win then r\<lparr>bt_buy_wins := bt_buy_wins r + 1\<rparr> else r)
               else if signal = ''SELL'' then
                 let pips = (entry_price - current_price) * 100;
                     win = (pips \<ge> MIN_MOVE_PIPS);
                     r = res\<lparr>bt_sell_total := bt_sell_total res + 1\<rparr>
                 in (pips, win, if win then r\<lparr>bt_sell_wins := bt_sell_wins r + 1\<rparr> else r)
               else
                 let pips = \<bar>current_price - entry_price\<bar> * 100
                 in (pips, pips < MIN_MOVE_PIPS * 2, res));
            res2 = res1\<lparr>bt_total := bt_total res1 + 1\<rparr>;
            res3 = (if win then res2\<lparr>bt_wins := bt_wins res2 + 1\<rparr>
                    else res2\<lparr>bt_losses := bt_losses res2 + 1\<rparr>)
        in (remove1 pending queue, res3,
            validated @ [\<lparr>vs_signal = signal, vs_entry = entry_price, vs_exit = current_price,
                           vs_pips = py_round pips 1, vs_win = win, vs_time = ps_time pending\<rparr>])
      else (queue, res, validated))"

text \<open>\<^verbatim>\<open>validate_backtest(current_price, bars)\<close>: \<open>now\<close> is the reading of
  \<^verbatim>\<open>time.time()\<close>, \<open>io\<close> the outcome of the write, should one happen. The argument
  \<^verbatim>\<open>bars\<close> is not used by the source.\<close>

definition validate_backtest ::
  "real \<Rightarrow> io_outcome \<Rightarrow> real \<Rightarrow> 't bar list \<Rightarrow> scorer_state \<Rightarrow>
   validated_signal list \<times> scorer_state" where
  "validate_backtest now io current_price bars s =
     (case foldl (validate_one now current_price)
             (backtest_pending s, backtest_results s, []) (backtest_pending s) of
        (queue, res, validated) \<Rightarrow>
          let queue' = (if length queue > 20 then last_n 20 queue else queue);
              s1 = s\<lparr>backtest_pending := queue', backtest_results := res\<rparr>;
              s2 = (if validated \<noteq> [] then save_backtest_data io s1 else s1)
          in (validated, s2))"

record win_rate =
  wr_win_rate :: real
  wr_total :: int
  wr_wins :: int
  wr_losses :: int
  wr_buy_rate :: real
  wr_sell_rate :: real
  wr_pending :: nat

definition get_win_rate :: "scorer_state \<Rightarrow> win_rate" where
  "get_win_rate s =
     (let r = backtest_results s; total = bt_total r in
      if total = 0 then
        \<lparr>wr_win_rate = 0, wr_total = 0, wr_wins = 0, wr_losses = 0, wr_buy_rate = 0,
         wr_sell_rate = 0, wr_pending = length (backtest_pending s)\<rparr>
      else
        let win_rate = (of_int (bt_wins r) / of_int total) * 100;
            buy_rate = (if bt_buy_total r > 0
                        then of_int (bt_buy_wins r) / of_int (bt_buy_total r) * 100 else 0);
            sell_rate = (if bt_sell_total r > 0
                         then of_int (bt_sell_wins r) / of_int (bt_sell_total r) * 100 else 0)
        in \<lparr>wr_win_rate = py_round win_rate 1, wr_total = total, wr_wins = bt_wins r,
             wr_losses = bt_losses r, wr_buy_rate = py_round buy_rate 1,
             wr_sell_rate = py_round sell_rate 1, wr_pending = length (backtest_pending s)\<rparr>)"

subsection \<open>Technical indicators\<close>

definition calc_sma :: "real list \<Rightarrow> nat \<Rightarrow> real option" where
  "calc_sma closes period =
     (if length closes < period then None
      else Some (sum_list (last_n period closes) / real period))"

definition calc_ema :: "real list \<Rightarrow> nat \<Rightarrow> real option" where
  "calc_ema closes period =
     (if length closes < period then None
      else
        let k = 2 / (real period + 1);
            ema = sum_list (take period closes) / real period
        in Some (foldl (\<lambda>ema price. price * k + ema * (1 - k)) ema (drop period closes)))"

text \<open>The differences \<^verbatim>\<open>closes[i] - closes[i-1]\<close> for \<^verbatim>\<open>i\<close> from 1.\<close>

definition diffs :: "real list \<Rightarrow> real list" where
  "diffs closes = map (\<lambda>(prev, cur). cur - prev) (zip closes (tl closes))"

definition calc_rsi :: "real list \<Rightarrow> nat \<Rightarrow> real" where
  "calc_rsi closes period =
     (if length closes < period + 1 then 50
      else
        let gains = map (\<lambda>diff. max 0 diff) (diffs closes);
            losses = map (\<lambda>diff. max 0 (- diff)) (diffs closes);
            avg_gain = sum_list (last_n period gains) / real period;
            avg_loss = sum_list (last_n period losses) / real period
        in if avg_loss = 0 then 100
           else
             let rs = avg_gain / avg_loss
             in max 0 (min 100 (100 - (100 / (1 + rs)))))"

record macd_values =
  macd_macd :: real
  macd_signal :: real
  macd_histogram :: real

definition calc_macd :: "real list \<Rightarrow> macd_values" where
  "calc_macd closes =
     (case (calc_ema closes 12, calc_ema closes 26) of
        (Some ema12, Some ema26) \<Rightarrow>
          let macd_line = ema12 - ema26;
              signal = macd_line * 0.8
          in \<lparr>macd_macd = py_round macd_line 4, macd_signal = py_round signal 4,
               macd_histogram = py_round (macd_line - signal) 4\<rparr>
      | _ \<Rightarrow> \<lparr>macd_macd = 0, macd_signal = 0, macd_histogram = 0\<rparr>)"

record bollinger_bands =
  bb_upper :: real
  bb_middle :: real
  bb_lower :: real

definition calc_bollinger :: "real list \<Rightarrow> nat \<Rightarrow> bollinger_bands option" where
  "calc_bollinger closes period =
     (if length closes < period then None
      else
        let sma = sum_list (last_n period closes) / real period;
            variance = sum_list (map (\<lambda>x. (x - sma) ^ 2) (last_n period closes)) / real period;
            std = sqrt variance
        in Some \<lparr>bb_upper = py_round (sma + 2 * std) 2, bb_middle = py_round sma 2,
                  bb_lower = py_round (sma - 2 * std) 2\<rparr>)"

text \<open>The true range of a bar after its predecessor.\<close>

definition true_range :: "'t bar \<Rightarrow> 't bar \<Rightarrow> real" where
  "true_range prev cur =
     max (max (bar_h cur - bar_l cur) \<bar>bar_h cur - bar_c prev\<bar>) \<bar>bar_l cur - bar_c prev\<bar>"

definition calc_atr :: "'t bar list \<Rightarrow> nat \<Rightarrow> real" where
  "calc_atr bars period =
     (if length bars < period + 1 then 0
      else
        let trs = map (\<lambda>(prev, cur). true_range prev cur) (zip bars (tl bars))
        in if trs \<noteq> [] then sum_list (last_n period trs) / real period else 0)"

record stochastic =
  stoch_k :: real
  stoch_d :: real

definition calc_stochastic :: "'t bar list \<Rightarrow> nat \<Rightarrow> nat \<Rightarrow> stochastic" where
  "calc_stochastic bars k_period d_period =
     (if length bars < k_period then \<lparr>stoch_k = 50, stoch_d = 50\<rparr>
      else
        let highs = map bar_h (last_n k_period bars);
            lows = map bar_l (last_n k_period bars);
            close = bar_c (last bars);
            highest = Max (set highs);
            lowest = Min (set lows)
        in if highest = lowest then \<lparr>stoch_k = 50, stoch_d = 50\<rparr>
           else
             let k = max 0 (min 100 (((close - lowest) / (highest - lowest)) * 100))
             in \<lparr>stoch_k = py_round k 1, stoch_d = py_round k 1\<rparr>)"

text \<open>The body of the loop of \<^verbatim>\<open>calc_adx\<close> on \<^verbatim>\<open>bars[i-1]\<close> and \<^verbatim>\<open>bars[i]\<close>; the
  loop variables are \<^verbatim>\<open>plus_dm\<close>, \<^verbatim>\<open>minus_dm\<close> and \<^verbatim>\<open>tr_sum\<close>.\<close>

definition adx_step :: "real \<times> real \<times> real \<Rightarrow> 't bar \<times> 't bar \<Rightarrow> real \<times> real \<times> real" where
  "adx_step acc pair =
     (case (acc, pair) of ((plus_dm, minus_dm, tr_sum), (prev, cur)) \<Rightarrow>
        let high_diff = bar_h cur - bar_h prev;
            low_diff = bar_l prev - bar_l cur;
            plus_dm' = (if high_diff > low_diff \<and> high_diff > 0 then plus_dm + high_diff
                        else plus_dm);
            minus_dm' = (if low_diff > high_diff \<and> low_diff > 0 then minus_dm + low_diff
                         else minus_dm)
        in (plus_dm', minus_dm', tr_sum + true_range prev cur))"

text \<open>\<^verbatim>\<open>calc_adx\<close>: the indices \<^verbatim>\<open>range(-period, 0)\<close> walk the last \<open>period + 1\<close> bars.\<close>

definition calc_adx :: "'t bar list \<Rightarrow> nat \<Rightarrow> real" where
  "calc_adx bars period =
     (if length bars < period + 1 then 25
      else
        let window = last_n (period + 1) bars in
        case foldl adx_step (0, 0, 0) (zip window (tl window)) of
          (plus_dm, minus_dm, tr_sum) \<Rightarrow>
            if tr_sum = 0 then 25
            else
              let plus_di = (plus_dm / tr_sum) * 100;
                  minus_di = (minus_dm / tr_sum) * 100
              in if plus_di + minus_di = 0 then 25
                 else
                   let dx = \<bar>plus_di - minus_di\<bar> / (plus_di + minus_di) * 100
                   in py_round (max 0 (min 100 dx)) 1)"

subsection \<open>The signal scorer\<close>

text \<open>The dictionary \<^verbatim>\<open>scores\<close>.\<close>

record sub_scores =
  sc_trend :: real
  sc_momentum :: real
  sc_macd :: real
  sc_volatility :: real
  sc_strength :: real

text \<open>The truth value Python gives an optional number: \<^verbatim>\<open>None\<close> and zero are false.\<close>

definition truthy :: "real option \<Rightarrow> bool" where
  "truthy x = (case x of None \<Rightarrow> False | Some v \<Rightarrow> v \<noteq> 0)"

text \<open>Section 1 of \<^verbatim>\<open>generate_signal\<close>: the trend score and the reason it appends.\<close>

definition trend_part :: "real \<Rightarrow> real option \<Rightarrow> real option \<Rightarrow> real \<times> reason list" where
  "trend_part current sma20 sma50 =
     (if truthy sma20 \<and> truthy sma50 then
        let s20 = the sma20; s50 = the sma50 in
        if current > s20 \<and> s20 > s50 then (100, [Strong_uptrend])
        else if current > s20 \<and> s20 < s50 then (60, [Trend_turning_bullish])
        else if current < s20 \<and> s20 < s50 then (- 100, [Strong_downtrend])
        else if current < s20 \<and> s20 > s50 then (- 60, [Trend_turning_bearish])
        else (0, [])
      else (0, []))"

text \<open>Section 2: the momentum score from RSI and the stochastic oscillator.\<close>

definition rsi_part :: "real \<Rightarrow> real \<times> reason list" where
  "rsi_part rsi =
     (if rsi < 25 then (100, [RSI_extreme_oversold rsi])
      else if rsi < 35 then (70, [RSI_oversold rsi])
      else if rsi > 75 then (- 100, [RSI_extreme_overbought rsi])
      else if rsi > 65 then (- 70, [RSI_overbought rsi])
      else (0, []))"

definition stoch_part :: "stochastic \<Rightarrow> real" where
  "stoch_part stoch =
     (if stoch_k stoch < 20 then 80 else if stoch_k stoch > 80 then - 80 else 0)"

definition momentum_part :: "real \<Rightarrow> real \<Rightarrow> real" where
  "momentum_part rsi_score stoch_score =
     (if (rsi_score > 0 \<and> stoch_score > 0) \<or> (rsi_score < 0 \<and> stoch_score < 0)
      then (rsi_score + stoch_score) / 2 * 1.2
      else (rsi_score + stoch_score) / 2)"

text \<open>Section 3: the MACD score.\<close>

definition macd_part :: "macd_values \<Rightarrow> real \<times> reason list" where
  "macd_part macd =
     (if macd_histogram macd > 0 \<and> macd_macd macd > macd_signal macd then
        (if macd_histogram macd > \<bar>macd_signal macd\<bar> * 0.1 then (100, [MACD_strong_bullish])
         else (80, []))
      else if macd_histogram macd < 0 \<and> macd_macd macd < macd_signal macd then
        (if \<bar>macd_histogram macd\<bar> > \<bar>macd_signal macd\<bar> * 0.1 then (- 100, [MACD_strong_bearish])
         else (- 80, []))
      else (macd_histogram macd * 10, []))"

text \<open>Section 4: the position of the price in the Bollinger band.\<close>

definition volatility_part :: "real \<Rightarrow> bollinger_bands option \<Rightarrow> real \<times> reason list" where
  "volatility_part current bb =
     (case bb of
        None \<Rightarrow> (0, [])
      | Some b \<Rightarrow>
          let bb_position =
                (if bb_upper b \<noteq> bb_lower b
                 then (current - bb_lower b) / (bb_upper b - bb_lower b) * 100 else 50)
          in if bb_position < 10 then (100, [Below_BB_lower])
             else if bb_position < 25 then (60, [])
             else if bb_position > 90 then (- 100, [Above_BB_upper])
             else if bb_position > 75 then (- 60, [])
             else (0, []))"

text \<open>Section 5: the ADX filter, in the direction of the trend score.\<close>

definition strength_part :: "real \<Rightarrow> real \<Rightarrow> real \<times> reason list" where
  "strength_part adx trend =
     (if adx > 40 then (if trend > 0 then 100 else - 100, [Very_strong_trend adx])
      else if adx > 25 then (if trend > 0 then 50 else - 50, [])
      else (0, []))"

text \<open>The five sections together: the dictionary \<^verbatim>\<open>scores\<close> and the list \<^verbatim>\<open>reasons\<close>
  as they are before the signal is determined.\<close>

definition compute_scores :: "'t bar list \<Rightarrow> real \<Rightarrow> sub_scores \<times> reason list" where
  "compute_scores bars bid =
     (let closes = map bar_c bars;
          current = bid;
          (trend, r1) = trend_part current (calc_sma closes 20) (calc_sma closes 50);
          (rsi_score, r2) = rsi_part (calc_rsi closes 14);
          stoch_score = stoch_part (calc_stochastic bars 14 3);
          (macd, r3) = macd_part (calc_macd closes);
          (volatility, r4) = volatility_part current (calc_bollinger closes 20);
          (strength, r5) = strength_part (calc_adx bars 14) trend
      in (\<lparr>sc_trend = trend, sc_momentum = momentum_part rsi_score stoch_score,
           sc_macd = macd, sc_volatility = volatility, sc_strength = strength\<rparr>,
          r1 @ r2 @ r3 @ r4 @ r5))"

text \<open>The weighted sum, in the order of the dictionary \<^verbatim>\<open>weights\<close>.\<close>

definition weighted_score :: "sub_scores \<Rightarrow> real" where
  "weighted_score sc =
     sc_trend sc * 0.30 + sc_momentum sc * 0.25 + sc_macd sc * 0.20
       + sc_volatility sc * 0.15 + sc_strength sc * 0.10"

text \<open>The signal and its confidence, before the ADX filter.\<close>

definition determine_signal :: "real \<Rightarrow> string \<times> int" where
  "determine_signal final_score =
     (if final_score > 35 then (''BUY'', min 95 (50 + py_int (final_score / 2)))
      else if final_score < - 35 then (''SELL'', min 95 (50 + py_int (\<bar>final_score\<bar> / 2)))
      else (''HOLD'', max 30 (50 - py_int \<bar>final_score\<bar>)))"

definition is_weak_trend :: "reason \<Rightarrow> bool" where
  "is_weak_trend r = (case r of Weak_trend _ \<Rightarrow> True | _ \<Rightarrow> False)"

text \<open>The ADX filter. Of the reason texts only \<^verbatim>\<open>Weak trend (ADX ...)\<close> contains the words
  \<^verbatim>\<open>Weak trend\<close>, which is what the test on \<^verbatim>\<open>str(reasons)\<close> looks for. The new
  confidence is \<^verbatim>\<open>int(confidence * 0.7)\<close>, the product being a float product.\<close>

definition adx_filter :: "real \<Rightarrow> int \<times> reason list \<Rightarrow> int \<times> reason list" where
  "adx_filter adx cr =
     (case cr of (confidence, reasons) \<Rightarrow>
        if adx < 20 then
          (py_int (float_times_0_7 confidence),
           if \<not> list_ex is_weak_trend reasons then reasons @ [Weak_trend adx] else reasons)
        else (confidence, reasons))"

record indicator_snapshot =
  ind_sma20 :: "real option"
  ind_sma50 :: "real option"
  ind_rsi :: real
  ind_stoch :: stochastic
  ind_macd :: macd_values
  ind_bb :: "bollinger_bands option"
  ind_atr :: real
  ind_adx :: real

text \<open>The keys of the full result beyond \<^verbatim>\<open>signal\<close> and \<^verbatim>\<open>confidence\<close>.\<close>

record signal_detail =
  sd_score :: real
  sd_scores :: sub_scores
  sd_buy_votes :: nat
  sd_sell_votes :: nat
  sd_reasons :: "reason list"
  sd_indicators :: indicator_snapshot
  sd_stats :: signal_counters
  sd_history :: "history_entry list"
  sd_backtest :: win_rate
  sd_validated :: "validated_signal list"

text \<open>The returned dictionary: the short form has the key \<^verbatim>\<open>reason\<close> only, the full form
  the keys of \<open>signal_detail\<close>.\<close>

record signal_result =
  sr_signal :: string
  sr_confidence :: int
  sr_reason :: "string option"
  sr_detail :: "signal_detail option"

text \<open>What one call of \<^verbatim>\<open>generate_signal\<close> reads from its environment: \<^verbatim>\<open>time.time()\<close> in
  \<^verbatim>\<open>validate_backtest\<close>, the two formats of \<^verbatim>\<open>datetime.now()\<close>, \<^verbatim>\<open>time.time()\<close> for the
  pending entry, and the outcomes of the two possible writes of the backtest file.\<close>

record environment =
  env_validate_time :: real
  env_now_time :: string
  env_now_date :: string
  env_pending_time :: real
  env_validate_io :: io_outcome
  env_change_io :: io_outcome

definition round_optional :: "real option \<Rightarrow> real option" where
  "round_optional x = (if truthy x then Some (py_round (the x) 2) else None)"

definition score_values :: "sub_scores \<Rightarrow> real list" where
  "score_values sc = [sc_trend sc, sc_momentum sc, sc_macd sc, sc_volatility sc, sc_strength sc]"

definition round_scores :: "sub_scores \<Rightarrow> sub_scores" where
  "round_scores sc =
     \<lparr>sc_trend = py_round (sc_trend sc) 1, sc_momentum = py_round (sc_momentum sc) 1,
      sc_macd = py_round (sc_macd sc) 1, sc_volatility = py_round (sc_volatility sc) 1,
      sc_strength = py_round (sc_strength sc) 1\<rparr>"

text \<open>\<^verbatim>\<open>signal_stats[signal.lower()] += 1\<close> for the three signals the scorer emits.\<close>

definition count_signal :: "string \<Rightarrow> signal_counters \<Rightarrow> signal_counters" where
  "count_signal signal st =
     (if signal = ''BUY'' then st\<lparr>st_buy := st_buy st + 1\<rparr>
      else if signal = ''SELL'' then st\<lparr>st_sell := st_sell st + 1\<rparr>
      else st\<lparr>st_hold := st_hold st + 1\<rparr>)"

text \<open>The branch \<^verbatim>\<open>if last_signal != signal\<close>.\<close>

definition track_change ::
  "environment \<Rightarrow> string \<Rightarrow> int \<Rightarrow> real \<Rightarrow> reason list \<Rightarrow> real \<Rightarrow> scorer_state \<Rightarrow> scorer_state" where
  "track_change env signal confidence final_score reasons bid s =
     (if last_signal s \<noteq> Some signal then
        let s1 = s\<lparr>signal_stats :=
                     count_signal signal
                       ((signal_stats s)\<lparr>st_total := st_total (signal_stats s) + 1\<rparr>)\<rparr>;
            s2 = s1\<lparr>backtest_pending := backtest_pending s1 @
                     [\<lparr>ps_signal = signal, ps_price = bid, ps_timestamp = env_pending_time env,
                       ps_time = env_now_time env, ps_confidence = confidence\<rparr>]\<rparr>;
            s3 = save_backtest_data (env_change_io env) s2;
            history = signal_history s3 @
                     [\<lparr>he_time = env_now_time env, he_date = env_now_date env,
                       he_signal = signal, he_price = py_round bid 2,
                       he_confidence = confidence, he_score = py_round final_score 1,
                       he_reasons = take 3 reasons, he_prev_signal = last_signal s\<rparr>];
            s4 = s3\<lparr>signal_history :=
                     (if length history > 100 then last_n 100 history else history)\<rparr>
        in s4\<lparr>last_signal := Some signal\<rparr>
      else s)"

text \<open>\<^verbatim>\<open>generate_signal(bars, bid)\<close>. The average \<^verbatim>\<open>sma200\<close> is computed by the source
  and never read, so it is left out.\<close>

definition generate_signal ::
  "environment \<Rightarrow> 't bar list \<Rightarrow> real \<Rightarrow> scorer_state \<Rightarrow> signal_result \<times> scorer_state" where
  "generate_signal env bars bid s =
     (if length bars < 50 then
        (\<lparr>sr_signal = ''HOLD'', sr_confidence = 0, sr_reason = Some ''Insufficient data'',
          sr_detail = None\<rparr>, s)
      else
        let closes = map bar_c bars;
            sma20 = calc_sma closes 20;
            sma50 = calc_sma closes 50;
            rsi = calc_rsi closes 14;
            macd = calc_macd closes;
            bb = calc_bollinger closes 20;
            atr = calc_atr bars 14;
            stoch = calc_stochastic bars 14 3;
            adx = calc_adx bars 14;
            (scores, reasons0) = compute_scores bars bid;
            final_score = weighted_score scores;
            (signal, confidence0) = determine_signal final_score;
            (confidence, reasons) = adx_filter adx (confidence0, reasons0);
            (validated, s1) =
              validate_backtest (env_validate_time env) (env_validate_io env) bid bars s;
            s2 = track_change env signal confidence final_score reasons bid s1
        in (\<lparr>sr_signal = signal, sr_confidence = confidence, sr_reason = None,
             sr_detail = Some
               \<lparr>sd_score = py_round final_score 1,
                sd_scores = round_scores scores,
                sd_buy_votes = length (filter (\<lambda>v. v > 30) (score_values scores)),
                sd_sell_votes = length (filter (\<lambda>v. v < - 30) (score_values scores)),
                sd_reasons = take 4 reasons,
                sd_indicators =
                  \<lparr>ind_sma20 = round_optional sma20, ind_sma50 = round_optional sma50,
                   ind_rsi = py_round rsi 1, ind_stoch = stoch, ind_macd = macd, ind_bb = bb,
                   ind_atr = py_round atr 2, ind_adx = py_round adx 1\<rparr>,
                sd_stats = signal_stats s2,
                sd_history = last_n 10 (signal_history s2),
                sd_backtest = get_win_rate s2,
                sd_validated = (if validated \<noteq> [] then last_n 5 validated else [])\<rparr>\<rparr>,
            s2))"

subsection \<open>The bar aggregator\<close>

text \<open>
  A \<^verbatim>\<open>datetime\<close> is the number of microseconds since midnight of a fixed day; naive
  datetimes have neither leap seconds nor time zones, so \<^verbatim>\<open>timedelta\<close> arithmetic is
  integer arithmetic on it. \<^verbatim>\<open>strftime("%Y.%m.%d %H:%M:%S")\<close> prints the whole second, and
  two such strings compare as their seconds do: in this part of the model the timestamp of
  a bar is that second.
\<close>

type_synonym datetime = int

definition strftime :: "datetime \<Rightarrow> int" where
  "strftime t = t div 1000000"

text \<open>\<^verbatim>\<open>replace(second=0, microsecond=0)\<close> and then
  \<^verbatim>\<open>replace(minute=(minute // 5) * 5)\<close>: the start of the five-minute interval.\<close>

definition five_minute_start :: "datetime \<Rightarrow> datetime" where
  "five_minute_start t = t - t mod 300000000"

record price_point =
  pp_time :: datetime
  pp_price :: real

text \<open>The dictionary \<^verbatim>\<open>bar_data\<close>, in insertion order: the prices of a known interval
  are extended, a new interval is added at the end.\<close>

fun add_price :: "datetime \<Rightarrow> real \<Rightarrow> (datetime \<times> real list) list \<Rightarrow> (datetime \<times> real list) list" where
  "add_price k p [] = [(k, [p])]"
| "add_price k p ((k', ps) # rest) =
     (if k' = k then (k', ps @ [p]) # rest else (k', ps) # add_price k p rest)"

definition group_prices :: "price_point list \<Rightarrow> (datetime \<times> real list) list" where
  "group_prices price_history =
     foldl (\<lambda>bar_data p. add_price (five_minute_start (pp_time p)) (pp_price p) bar_data)
       [] price_history"

definition ohlc_bar :: "datetime \<times> real list \<Rightarrow> int bar" where
  "ohlc_bar kp =
     (case kp of (start, prices) \<Rightarrow>
        \<lparr>bar_time = strftime start, bar_o = py_round (hd prices) 2,
         bar_h = py_round (Max (set prices)) 2, bar_l = py_round (Min (set prices)) 2,
         bar_c = py_round (last prices) 2, bar_v = int (length prices) * 100,
         bar_synthetic = False\<rparr>)"

text \<open>The real bars, one for each interval in ascending order of its start.\<close>

definition real_bars :: "price_point list \<Rightarrow> int bar list" where
  "real_bars price_history =
     (if length price_history > 10 then
        map ohlc_bar (filter (\<lambda>kp. snd kp \<noteq> []) (sort_key fst (group_prices price_history)))
      else [])"

text \<open>The synthetic bar for the index \<^verbatim>\<open>idx\<close>.\<close>

definition synthetic_bar :: "datetime \<Rightarrow> real \<Rightarrow> int \<Rightarrow> int bar" where
  "synthetic_bar now current_price idx =
     (let typical_range = current_price * 0.015;
          t = now - idx * 5 * 60000000;
          wave = sin (of_int idx * 0.3) * (typical_range * 0.3);
          base = current_price + wave;
          bar_range = typical_range * 0.1;
          opn = base - bar_range * 0.2;
          cls = base + bar_range * 0.2;
          high = base + bar_range;
          low = base - bar_range
      in \<lparr>bar_time = strftime t, bar_o = py_round opn 2, bar_h = py_round high 2,
          bar_l = py_round low 2, bar_c = py_round cls 2, bar_v = 1000, bar_synthetic = True\<rparr>)"

text \<open>The back-filling loop \<^verbatim>\<open>for i in range(60 - len(bars))\<close>: the range is fixed when
  the loop starts, the body reads the current \<^verbatim>\<open>len(bars)\<close> and inserts at the front.\<close>

definition backfill :: "datetime \<Rightarrow> real \<Rightarrow> int bar list \<Rightarrow> int bar list" where
  "backfill now current_price bars =
     (if length bars < 60 then
        foldl (\<lambda>bars i. synthetic_bar now current_price (60 - int (length bars) - int i) # bars)
          bars [0 ..< 60 - length bars]
      else bars)"

text \<open>The last bar takes the current price as its close, and as its high or low when the
  price is outside them.\<close>

definition include_current :: "real \<Rightarrow> int bar list \<Rightarrow> int bar list" where
  "include_current current_price bars =
     (if bars \<noteq> [] then
        let b1 = (last bars)\<lparr>bar_c := py_round current_price 2\<rparr>;
            b2 = (if current_price > bar_h b1 then b1\<lparr>bar_h := py_round current_price 2\<rparr> else b1);
            b3 = (if current_price < bar_l b2 then b2\<lparr>bar_l := py_round current_price 2\<rparr> else b2)
        in butlast bars @ [b3]
      else bars)"

text \<open>\<^verbatim>\<open>build_bars_from_price(current_price)\<close>: \<open>now\<close> is the reading of
  \<^verbatim>\<open>datetime.now()\<close>, the state is the global \<^verbatim>\<open>price_history\<close>.\<close>

definition build_bars_from_price ::
  "datetime \<Rightarrow> real \<Rightarrow> price_point list \<Rightarrow> int bar list \<times> price_point list" where
  "build_bars_from_price now current_price price_history =
     (let ph1 = price_history @ [\<lparr>pp_time = now, pp_price = current_price\<rparr>];
          ph2 = (if length ph1 > 2000 then last_n 2000 ph1 else ph1);
          bars = include_current current_price (backfill now current_price (real_bars ph2))
      in (last_n 200 bars, ph2))"

section \<open>Properties\<close>

subsection \<open>Predicates used in the statements\<close>

text \<open>The invariant of the bar cache: at most 2000 bars, pairwise distinct timestamps, in
  ascending order.\<close>

definition cache_invariant :: "string bar list \<Rightarrow> bool" where
  "cache_invariant c \<longleftrightarrow>
     length c \<le> 2000 \<and> distinct (map bar_time c) \<and> sorted (map bar_time c)"

text \<open>The loop variables of the merge agree: the index of timestamps is that of the cache,
  and no timestamp occurs twice.\<close>

definition mv_ok :: "merge_vars \<Rightarrow> bool" where
  "mv_ok mv \<longleftrightarrow>
     existing_times mv = set (map bar_time (mv_cache mv)) \<and> distinct (map bar_time (mv_cache mv))"

text \<open>The bars the merge loop does not skip, the entries of a list of bars that carry a
  given timestamp, and the number of bars of a list that are newer than a timestamp.\<close>

definition mergeable :: "string bar \<Rightarrow> bool" where
  "mergeable b \<longleftrightarrow> \<not> bar_synthetic b \<and> bar_time b \<noteq> []"

definition at_time :: "string \<Rightarrow> string bar list \<Rightarrow> string bar list" where
  "at_time t bars = filter (\<lambda>b. bar_time b = t) bars"

definition newer_than :: "string \<Rightarrow> string bar list \<Rightarrow> nat" where
  "newer_than t bars = length (filter (\<lambda>b. t < bar_time b) bars)"

subsection \<open>Example inputs\<close>

text \<open>A bar of a market standing still at 2000, the state of a freshly started server
  with no backtest file, and an environment whose writes succeed.\<close>

definition flat_bar :: "string bar" where
  "flat_bar = \<lparr>bar_time = ''2024.01.02 10:00:00'', bar_o = 2000, bar_h = 2000, bar_l = 2000,
     bar_c = 2000, bar_v = 100, bar_synthetic = False\<rparr>"

text \<open>A market that stands still and then widens its range a little in both directions:
  the closes stay at 2000, the last two bars reach up to 2005 and down to 1996.\<close>

definition rising_bar :: "string bar" where
  "rising_bar = flat_bar\<lparr>bar_time := ''2024.01.02 10:05:00'', bar_h := 2005\<rparr>"

definition wide_bar :: "string bar" where
  "wide_bar = flat_bar\<lparr>bar_time := ''2024.01.02 10:10:00'', bar_h := 2005, bar_l := 1996\<rparr>"

definition ranging_bars :: "string bar list" where
  "ranging_bars = replicate 48 flat_bar @ [rising_bar, wide_bar]"

definition fresh_scorer :: scorer_state where
  "fresh_scorer =
     \<lparr>last_signal = None, signal_history = [],
      signal_stats = \<lparr>st_total = 0, st_correct = 0, st_buy = 0, st_sell = 0, st_hold = 0\<rparr>,
      backtest_pending = [],
      backtest_results = \<lparr>bt_total = 0, bt_wins = 0, bt_losses = 0, bt_buy_wins = 0,
        bt_buy_total = 0, bt_sell_wins = 0, bt_sell_total = 0\<rparr>,
      backtest_file = None\<rparr>"

definition calm_environment :: environment where
  "calm_environment =
     \<lparr>env_validate_time = 1700000000, env_now_time = ''10:00:00'', env_now_date = ''2024-01-02'',
      env_pending_time = 1700000000, env_validate_io = Io_ok, env_change_io = Io_ok\<rparr>"

subsection \<open>The validation rule in the words of the specification\<close>

text \<open>A pending signal is due when it is at least 14400 seconds old.\<close>

definition spec_due :: "real \<Rightarrow> pending_signal \<Rightarrow> bool" where
  "spec_due now p \<longleftrightarrow> now - ps_timestamp p \<ge> 14400"

text \<open>Realized pips: (current - entry) * 100 for BUY, (entry - current) * 100 for SELL,
  the absolute move * 100 for HOLD (any other kind counts as HOLD).\<close>

definition spec_pips :: "real \<Rightarrow> pending_signal \<Rightarrow> real" where
  "spec_pips current p =
     (if ps_signal p = ''BUY'' then (current - ps_price p) * 100
      else if ps_signal p = ''SELL'' then (ps_price p - current) * 100
      else \<bar>current - ps_price p\<bar> * 100)"

text \<open>A BUY or SELL wins iff its pips are at least 100, a HOLD iff they are below 200.\<close>

definition spec_win :: "real \<Rightarrow> pending_signal \<Rightarrow> bool" where
  "spec_win current p \<longleftrightarrow>
     (if ps_signal p = ''BUY'' \<or> ps_signal p = ''SELL'' then spec_pips current p \<ge> 100
      else spec_pips current p < 200)"

text \<open>One resolution: \<open>total\<close> and exactly one of \<open>wins\<close> and \<open>losses\<close> go up by one; a
  BUY also counts in \<open>buy_total\<close> and, when it wins, in \<open>buy_wins\<close>; a SELL likewise.\<close>

definition spec_tally :: "real \<Rightarrow> backtest_counters \<Rightarrow> pending_signal \<Rightarrow> backtest_counters" where
  "spec_tally current r p =
     \<lparr>bt_total = bt_total r + 1,
      bt_wins = bt_wins r + (if spec_win current p then 1 else 0),
      bt_losses = bt_losses r + (if spec_win current p then 0 else 1),
      bt_buy_wins = bt_buy_wins r + (if ps_signal p = ''BUY'' \<and> spec_win current p then 1 else 0),
      bt_buy_total = bt_buy_total r + (if ps_signal p = ''BUY'' then 1 else 0),
      bt_sell_wins = bt_sell_wins r + (if ps_signal p = ''SELL'' \<and> spec_win current p then 1 else 0),
      bt_sell_total = bt_sell_total r + (if ps_signal p = ''SELL'' then 1 else 0)\<rparr>"

definition spec_record :: "real \<Rightarrow> pending_signal \<Rightarrow> validated_signal" where
  "spec_record current p =
     \<lparr>vs_signal = ps_signal p, vs_entry = ps_price p, vs_exit = current,
      vs_pips = py_round (spec_pips current p) 1, vs_win = spec_win current p,
      vs_time = ps_time p\<rparr>"

subsection \<open>The life of the bar cache\<close>

text \<open>What happens to the cache while the server runs: a batch is merged, the cache is
  saved (with the outcome of the write and the time), or the server is started again,
  which resets the globals and loads the file. \<open>initial_m5\<close> is the state of a first
  start, which finds no file.\<close>

datatype m5_event = Merge "string bar list" | Save io_outcome real | Restart string

definition initial_m5 :: m5_state where
  "initial_m5 = \<lparr>m5_cache = [], m5_cache_dirty = False, m5_last_save = 0, m5_cache_file = None\<rparr>"

fun m5_step :: "m5_state \<Rightarrow> m5_event \<Rightarrow> m5_state" where
  "m5_step s (Merge new_bars) = merge_bars_into_cache new_bars s"
| "m5_step s (Save io now) = save_m5_cache io now s"
| "m5_step s (Restart cutoff) =
     load_m5_cache cutoff (s\<lparr>m5_cache := [], m5_cache_dirty := False, m5_last_save := 0\<rparr>)"

definition m5_run :: "m5_state \<Rightarrow> m5_event list \<Rightarrow> m5_state" where
  "m5_run s events = foldl m5_step s events"

text \<open>Neither the cache nor the file holds a synthetic bar.\<close>

definition no_synthetic :: "m5_state \<Rightarrow> bool" where
  "no_synthetic s \<longleftrightarrow>
     list_all (\<lambda>b. \<not> bar_synthetic b) (m5_cache s)
     \<and> (case m5_cache_file s of None \<Rightarrow> True
         | Some snapshot \<Rightarrow> list_all (\<lambda>b. \<not> bar_synthetic b) snapshot)"

subsection \<open>A full cache\<close>

text \<open>Timestamps \<^verbatim>\<open>t\<close>, \<^verbatim>\<open>t9\<close>, \<^verbatim>\<open>t99\<close>, ... in ascending order, a bar for each, and a
  cache that holds the 2000 bars numbered 1 to 2000.\<close>

definition stamp :: "nat \<Rightarrow> string" where
  "stamp n = CHR ''t'' # replicate n (CHR ''9'')"

definition numbered_bar :: "nat \<Rightarrow> real \<Rightarrow> string bar" where
  "numbered_bar n price =
     \<lparr>bar_time = stamp n, bar_o = price, bar_h = price, bar_l = price, bar_c = price,
      bar_v = 100, bar_synthetic = False\<rparr>"

definition full_cache :: "string bar list" where
  "full_cache = map (\<lambda>n. numbered_bar n 1) [1 ..< 2001]"

definition full_m5 :: m5_state where
  "full_m5 = \<lparr>m5_cache = full_cache, m5_cache_dirty = False, m5_last_save = 0,
     m5_cache_file = None\<rparr>"

subsection \<open>A scorer with a full queue\<close>

text \<open>Twenty pending signals, HOLD and BUY in turn, recorded ten minutes apart and all
  younger than four hours at the time 1700000000; the last signal emitted was the BUY at
  the end of the queue.\<close>

definition recent_pending :: "pending_signal list" where
  "recent_pending =
     map (\<lambda>k. \<lparr>ps_signal = (if even k then ''HOLD'' else ''BUY''), ps_price = 2000,
               ps_timestamp = 1699988000 + 600 * real k, ps_time = ''09:00:00'',
               ps_confidence = (if even k then 38 else 68)\<rparr>) [0 ..< 20]"

definition busy_scorer :: scorer_state where
  "busy_scorer = fresh_scorer\<lparr>last_signal := Some ''BUY'', backtest_pending := recent_pending\<rparr>"

subsection \<open>The shape of the bars the aggregator returns\<close>

text \<open>What is left of a list of bars after its leading synthetic bars.\<close>

definition after_synthetic :: "'t bar list \<Rightarrow> 't bar list" where
  "after_synthetic bars = dropWhile bar_synthetic bars"

text \<open>Synthetic bars come first: no synthetic bar follows a real one, and the real bars
  are in strictly ascending time order.\<close>

definition synthetic_then_real :: "int bar list \<Rightarrow> bool" where
  "synthetic_then_real bars \<longleftrightarrow>
     list_all (\<lambda>b. \<not> bar_synthetic b) (after_synthetic bars)
     \<and> sorted_wrt (<) (map bar_time (after_synthetic bars))"

text \<open>Ten ticks at 2000, one second apart; with the tick that
  \<^verbatim>\<open>build_bars_from_price\<close> adds at the time 100000000000 they are eleven, all in the
  five-minute interval that starts at 99900000000.\<close>

definition ten_ticks :: "price_point list" where
  "ten_ticks =
     [\<lparr>pp_time = 99990000000, pp_price = 2000\<rparr>, \<lparr>pp_time = 99991000000, pp_price = 2000\<rparr>,
      \<lparr>pp_time = 99992000000, pp_price = 2000\<rparr>, \<lparr>pp_time = 99993000000, pp_price = 2000\<rparr>,
      \<lparr>pp_time = 99994000000, pp_price = 2000\<rparr>, \<lparr>pp_time = 99995000000, pp_price = 2000\<rparr>,
      \<lparr>pp_time = 99996000000, pp_price = 2000\<rparr>, \<lparr>pp_time = 99997000000, pp_price = 2000\<rparr>,
      \<lparr>pp_time = 99998000000, pp_price = 2000\<rparr>, \<lparr>pp_time = 99999000000, pp_price = 2000\<rparr>]"

subsection \<open>Auxiliary facts about lists and the bar cache\<close>

lemma last_n_ball: "\<forall>x \<in> set xs. P x \<Longrightarrow> \<forall>x \<in> set (last_n n xs). P x"
  by (auto simp: last_n_def dest: in_set_dropD)

lemma update_existing_times:
  "map bar_time (fst (update_existing bar c)) = map bar_time c"
  by (induction c) (auto split: prod.splits)

lemma update_existing_length:
  "length (fst (update_existing bar c)) = length c"
  by (induction c) (auto split: prod.splits)

lemma update_existing_set:
  "set (fst (update_existing bar c)) \<subseteq> insert bar (set c)"
  by (induction c) (auto split: prod.splits)

lemma update_existing_found:
  "bar_time bar \<in> set (map bar_time c) \<Longrightarrow> snd (update_existing bar c) = 1"
  by (induction c) (auto split: prod.splits)

lemma merge_one_ok: "mv_ok mv \<Longrightarrow> mv_ok (merge_one mv bar)"
proof -
  assume ok: "mv_ok mv"
  obtain c' u where u: "update_existing bar (mv_cache mv) = (c', u)" by force
  have t: "map bar_time c' = map bar_time (mv_cache mv)"
    using update_existing_times [of bar "mv_cache mv"] u by simp
  show ?thesis
    using ok u t unfolding mv_ok_def merge_one_def by (simp del: set_map) 
qed

lemma foldl_merge_one_ok: "mv_ok mv \<Longrightarrow> mv_ok (foldl merge_one mv bars)"
  by (induction bars arbitrary: mv) (auto simp: merge_one_ok)

lemma merge_loop_ok:
  "distinct (map bar_time cache) \<Longrightarrow> mv_ok (merge_loop new_bars cache)"
  unfolding merge_loop_def by (rule foldl_merge_one_ok) (simp add: mv_ok_def)

lemma sorted_last_n: "sorted (map f xs) \<Longrightarrow> sorted (map f (last_n n xs))"
  by (simp add: last_n_def drop_map[symmetric] sorted_wrt_drop)

lemma distinct_last_n: "distinct (map f xs) \<Longrightarrow> distinct (map f (last_n n xs))"
  by (simp add: last_n_def drop_map[symmetric])

lemma length_last_n: "length (last_n n xs) \<le> n"
  by (simp add: last_n_def)

lemma distinct_map_sort_key:
  "distinct (map f (sort_key g xs)) = distinct (map f xs)"
  by (simp add: distinct_map)

lemma merge_one_times:
  "\<exists>ts. map bar_time (mv_cache (merge_one mv bar)) = map bar_time (mv_cache mv) @ ts
     \<and> added (merge_one mv bar) = added mv + length ts"
proof -
  obtain c' u where u: "update_existing bar (mv_cache mv) = (c', u)" by force
  have t: "map bar_time c' = map bar_time (mv_cache mv)"
    using update_existing_times [of bar "mv_cache mv"] u by simp
  show ?thesis using u t by (simp add: merge_one_def)
qed

lemma foldl_merge_one_times:
  "\<exists>ts. map bar_time (mv_cache (foldl merge_one mv bars)) = map bar_time (mv_cache mv) @ ts
     \<and> added (foldl merge_one mv bars) = added mv + length ts"
proof (induction bars arbitrary: mv)
  case Nil
  then show ?case by simp
next
  case (Cons b bars)
  obtain ts where 1: "map bar_time (mv_cache (merge_one mv b)) = map bar_time (mv_cache mv) @ ts"
    "added (merge_one mv b) = added mv + length ts"
    using merge_one_times by blast
  obtain us where 2: "map bar_time (mv_cache (foldl merge_one (merge_one mv b) bars))
       = map bar_time (mv_cache (merge_one mv b)) @ us"
    "added (foldl merge_one (merge_one mv b) bars) = added (merge_one mv b) + length us"
    using Cons.IH by blast
  from 1 2 show ?case by (intro exI [of _ "ts @ us"]) simp
qed

lemma merge_loop_no_added:
  "added (merge_loop new_bars cache) = 0 \<Longrightarrow>
   map bar_time (mv_cache (merge_loop new_bars cache)) = map bar_time cache"
  using foldl_merge_one_times [of "\<lparr>mv_cache = cache, existing_times = set (map bar_time cache),
     added = 0, updated = 0\<rparr>" new_bars]
  unfolding merge_loop_def by auto

lemma take_less_drop:
  assumes "sorted (map f xs)" "distinct (map f xs)" "x \<in> set (take k xs)" "y \<in> set (drop k xs)"
  shows "f x < f y"
proof -
  have "map f xs = map f (take k xs) @ map f (drop k xs)"
    by (simp flip: map_append)
  with assms(1,2) have s: "sorted (map f (take k xs) @ map f (drop k xs))"
    and d: "distinct (map f (take k xs) @ map f (drop k xs))" by simp_all
  from s assms(3,4) have "f x \<le> f y" by (auto simp: sorted_append)
  moreover from d assms(3,4) have "f x \<noteq> f y" by auto
  ultimately show ?thesis by simp
qed

lemma evicted_older:
  assumes "sorted (map f xs)" "distinct (map f xs)" "x \<in> set xs" "x \<notin> set (last_n n xs)"
    "y \<in> set (last_n n xs)"
  shows "f x < f y"
proof -
  have "set xs = set (take (length xs - n) xs) \<union> set (drop (length xs - n) xs)"
    by (metis append_take_drop_id set_append)
  with assms(3,4) have "x \<in> set (take (length xs - n) xs)" by (auto simp: last_n_def)
  with assms show ?thesis by (auto simp: last_n_def intro: take_less_drop)
qed

lemma merge_invariant_and_eviction:
  assumes "cache_invariant (m5_cache s)"
  shows "cache_invariant (m5_cache (merge_bars_into_cache new_bars s))
    \<and> (\<forall>x \<in> set (mv_cache (merge_loop new_bars (m5_cache s))).
          x \<notin> set (m5_cache (merge_bars_into_cache new_bars s)) \<longrightarrow>
          (\<forall>y \<in> set (m5_cache (merge_bars_into_cache new_bars s)). bar_time x < bar_time y))
    \<and> length (m5_cache (merge_bars_into_cache new_bars s))
        = min (length (mv_cache (merge_loop new_bars (m5_cache s)))) 2000"
proof (cases "new_bars = []")
  case True
  then show ?thesis using assms
    by (simp add: merge_bars_into_cache_def merge_loop_def cache_invariant_def)
next
  case False
  let ?mv = "merge_loop new_bars (m5_cache s)"
  let ?srt = "sort_key bar_time (mv_cache ?mv)"
  have ok: "mv_ok ?mv" using assms by (simp add: merge_loop_ok cache_invariant_def)
  then have d: "distinct (map bar_time ?srt)"
    by (simp add: distinct_map_sort_key mv_ok_def)
  have srt: "sorted (map bar_time ?srt)" by simp
  show ?thesis
  proof (cases "added ?mv > 0 \<or> updated ?mv > 0")
    case True
    then have r: "m5_cache (merge_bars_into_cache new_bars s) = last_n 2000 ?srt"
      using False by (simp add: merge_bars_into_cache_def Let_def M5_CACHE_MAX_BARS_def)
    have inv: "cache_invariant (last_n 2000 ?srt)"
      unfolding cache_invariant_def
      using sorted_last_n [OF srt] distinct_last_n [OF d] length_last_n by blast
    have ev: "\<forall>x \<in> set (mv_cache ?mv). x \<notin> set (last_n 2000 ?srt) \<longrightarrow>
          (\<forall>y \<in> set (last_n 2000 ?srt). bar_time x < bar_time y)"
      using evicted_older [OF srt d] by simp
    have len: "length (last_n 2000 ?srt) = min (length (mv_cache ?mv)) 2000"
      by (simp add: last_n_def)
    show ?thesis unfolding r using inv ev len by blast
  next
    case False
    then have r: "m5_cache (merge_bars_into_cache new_bars s) = mv_cache ?mv"
      using \<open>new_bars \<noteq> []\<close> by (simp add: merge_bars_into_cache_def Let_def)
    from False have "map bar_time (mv_cache ?mv) = map bar_time (m5_cache s)"
      by (simp add: merge_loop_no_added)
    then have "cache_invariant (mv_cache ?mv)"
      using assms unfolding cache_invariant_def by (metis length_map)
    then show ?thesis unfolding r by (simp add: cache_invariant_def)
  qed
qed
subsection \<open>A single bar merged, and the full cache\<close>

lemma merge_loop_append:
  "\<not> bar_synthetic b \<Longrightarrow> bar_time b \<noteq> [] \<Longrightarrow> bar_time b \<notin> set (map bar_time c) \<Longrightarrow>
   merge_loop [b] c = \<lparr>mv_cache = c @ [b], existing_times = insert (bar_time b) (set (map bar_time c)),
     added = 1, updated = 0\<rparr>"
  by (simp add: merge_loop_def merge_one_def)

lemma merge_loop_update:
  "\<not> bar_synthetic b \<Longrightarrow> bar_time b \<noteq> [] \<Longrightarrow> bar_time b \<in> set (map bar_time c) \<Longrightarrow>
   merge_loop [b] c = \<lparr>mv_cache = fst (update_existing b c), existing_times = set (map bar_time c),
     added = 0, updated = 1\<rparr>"
  using update_existing_found [of b c]
  by (auto simp: merge_loop_def merge_one_def split: prod.splits)

lemma replicate_less: "i < j \<Longrightarrow> replicate i (c::char) < replicate j c"
proof (induction i arbitrary: j)
  case 0
  then show ?case by (cases j) simp_all
next
  case (Suc i)
  then show ?case by (cases j) simp_all
qed

lemma stamp_less: "i < j \<Longrightarrow> stamp i < stamp j"
  by (simp add: stamp_def replicate_less)

lemma stamp_inj: "inj stamp"
  by (rule injI) (simp add: stamp_def replicate_eq_replicate)

lemma full_cache_times: "map bar_time full_cache = map stamp [1 ..< 2001]"
  by (simp add: full_cache_def numbered_bar_def comp_def)

lemma full_cache_invariant: "cache_invariant full_cache"
proof -
  have "sorted_wrt (\<lambda>i j. stamp i \<le> stamp j) [1 ..< 2001]"
    by (rule sorted_wrt_mono_rel [OF _ sorted_wrt_upt]) (simp add: stamp_less less_imp_le)
  then have "sorted (map stamp [1 ..< 2001])" by (simp add: sorted_map)
  moreover have "distinct (map stamp [1 ..< 2001])"
    by (simp add: distinct_map inj_on_subset [OF stamp_inj])
  moreover have "length full_cache = 2000" by (simp add: full_cache_def)
  ultimately show ?thesis by (simp add: cache_invariant_def full_cache_times)
qed

lemma full_cache_newer: "\<forall>x \<in> set full_cache. stamp 0 < bar_time x"
  by (auto simp: full_cache_def numbered_bar_def stamp_less)

subsection \<open>The scorer on fifty bars of a market standing still\<close>

lemma last_n_replicate: "last_n k (replicate n x) = replicate (min k n) x"
  by (auto simp: last_n_def min_def)

lemma foldl_fixed: "f a x = a \<Longrightarrow> foldl f a (replicate n x) = a"
  by (induction n) simp_all

lemma flat_close: "bar_c flat_bar = 2000"
  by (simp add: flat_bar_def)

lemma py_round_0: "py_round 0 n = 0"
  by (simp add: py_round_def)

lemma py_round_2000: "py_round 2000 2 = 2000"
  by (simp add: py_round_def Let_def)

lemma flat_sma20: "calc_sma (replicate 50 2000) 20 = Some 2000"
  by (simp add: calc_sma_def last_n_replicate sum_list_replicate)

lemma flat_sma50: "calc_sma (replicate 50 2000) 50 = Some 2000"
  by (simp add: calc_sma_def last_n_replicate sum_list_replicate)

lemma flat_diffs: "diffs (replicate 50 x) = replicate 49 0"
  by (simp add: diffs_def tl_replicate zip_replicate)

lemma flat_rsi: "calc_rsi (replicate 50 2000) 14 = 100"
  by (simp add: calc_rsi_def flat_diffs last_n_replicate sum_list_replicate)

lemma flat_ema:
  assumes "0 < p" "p \<le> 50"
  shows "calc_ema (replicate 50 2000) p = Some 2000"
proof -
  have "foldl (\<lambda>ema price. price * (2 / (real p + 1)) + ema * (1 - 2 / (real p + 1))) 2000
      (replicate (50 - p) 2000) = 2000"
    by (rule foldl_fixed) (simp add: algebra_simps)
  then show ?thesis using assms by (simp add: calc_ema_def Let_def min_def sum_list_replicate)
qed

lemma flat_macd:
  "calc_macd (replicate 50 2000) = \<lparr>macd_macd = 0, macd_signal = 0, macd_histogram = 0\<rparr>"
  by (simp add: calc_macd_def flat_ema py_round_0)

lemma flat_bollinger:
  "calc_bollinger (replicate 50 2000) 20
     = Some \<lparr>bb_upper = 2000, bb_middle = 2000, bb_lower = 2000\<rparr>"
  by (simp add: calc_bollinger_def last_n_replicate py_round_2000 sum_list_replicate Let_def)

lemma flat_stochastic:
  "calc_stochastic (replicate 50 flat_bar) 14 3 = \<lparr>stoch_k = 50, stoch_d = 50\<rparr>"
  by (simp add: calc_stochastic_def last_n_replicate flat_bar_def)

lemma flat_adx: "calc_adx (replicate 50 flat_bar) 14 = 25"
proof -
  have "foldl adx_step (0, 0, 0) (replicate 14 (flat_bar, flat_bar)) = (0, 0, 0)"
    by (rule foldl_fixed) (simp add: adx_step_def true_range_def flat_bar_def)
  then show ?thesis
    by (simp add: calc_adx_def last_n_replicate tl_replicate zip_replicate)
qed

lemma flat_scores:
  "compute_scores (replicate 50 flat_bar) 2000
     = (\<lparr>sc_trend = 0, sc_momentum = - 50, sc_macd = 0, sc_volatility = 0, sc_strength = 0\<rparr>,
        [RSI_extreme_overbought 100])"
  by (simp add: compute_scores_def Let_def flat_close flat_sma20 flat_sma50 flat_rsi flat_macd
      flat_bollinger flat_stochastic flat_adx trend_part_def truthy_def rsi_part_def
      stoch_part_def momentum_part_def macd_part_def volatility_part_def strength_part_def)

lemma flat_weighted_score:
  "weighted_score (fst (compute_scores (replicate 50 flat_bar) 2000)) = - 12.5"
  by (simp add: flat_scores weighted_score_def)

lemma flat_signal: "determine_signal (- (25 / 2)) = (''HOLD'', 38)"
  by (simp add: determine_signal_def py_int_def)

subsection \<open>A ranging market: the scorer on \<open>ranging_bars\<close>\<close>

lemma ranging_length: "length ranging_bars = 50"
  by (simp add: ranging_bars_def)

lemma ranging_closes: "map bar_c ranging_bars = replicate 50 2000"
proof -
  have "replicate 50 (2000::real) = replicate 48 2000 @ replicate 2 2000"
    by (simp only: replicate_add [symmetric]) simp
  then show ?thesis
    by (simp add: ranging_bars_def rising_bar_def wide_bar_def flat_bar_def numeral_2_eq_2)
qed

lemma ranging_window: "last_n 15 ranging_bars = replicate 13 flat_bar @ [rising_bar, wide_bar]"
  by (simp add: last_n_def ranging_bars_def)

lemma ranging_window14: "last_n 14 ranging_bars = replicate 12 flat_bar @ [rising_bar, wide_bar]"
  by (simp add: last_n_def ranging_bars_def)

lemma ranging_stochastic:
  "calc_stochastic ranging_bars 14 3 = \<lparr>stoch_k = 44.4, stoch_d = 44.4\<rparr>"
proof -
  have highs: "Max (set (map bar_h (last_n 14 ranging_bars))) = 2005"
    by (simp add: ranging_window14 rising_bar_def wide_bar_def flat_bar_def)
  have lows: "Min (set (map bar_l (last_n 14 ranging_bars))) = 1996"
    by (simp add: ranging_window14 rising_bar_def wide_bar_def flat_bar_def)
  have close: "bar_c (last ranging_bars) = 2000"
    by (simp add: ranging_bars_def wide_bar_def flat_bar_def)
  have round: "py_round (400 / 9) 1 = 44.4"
    by (simp add: py_round_def Let_def)
  have "calc_stochastic ranging_bars 14 3
      = (let k = max 0 (min 100 (((2000 - 1996) / (2005 - 1996)) * 100))
         in \<lparr>stoch_k = py_round k 1, stoch_d = py_round k 1\<rparr>)"
    unfolding calc_stochastic_def Let_def highs lows close
    by (simp add: ranging_length)
  also have "\<dots> = \<lparr>stoch_k = py_round (400 / 9) 1, stoch_d = py_round (400 / 9) 1\<rparr>"
    by (simp add: Let_def)
  finally show ?thesis by (simp only: round)
qed

lemma ranging_pairs:
  "zip (last_n 15 ranging_bars) (tl (last_n 15 ranging_bars))
   = replicate 12 (flat_bar, flat_bar) @ [(flat_bar, rising_bar), (rising_bar, wide_bar)]"
proof -
  have a: "replicate 13 flat_bar @ [rising_bar, wide_bar]
      = replicate 12 flat_bar @ [flat_bar, rising_bar, wide_bar]"
  proof -
    have "replicate (12 + 1) flat_bar = replicate 12 flat_bar @ replicate 1 flat_bar"
      by (rule replicate_add)
    then show ?thesis by simp
  qed
  have b: "tl (replicate 13 flat_bar @ [rising_bar, wide_bar])
      = replicate 12 flat_bar @ [rising_bar, wide_bar]"
    by (simp add: tl_replicate)
  show ?thesis unfolding ranging_window unfolding b unfolding a
    by (simp add: zip_replicate)
qed

lemma ranging_adx: "calc_adx ranging_bars 14 = 11.1"
proof -
  have "foldl adx_step (0, 0, 0) (replicate 12 (flat_bar, flat_bar)) = (0, 0, 0)"
    by (rule foldl_fixed) (simp add: adx_step_def true_range_def flat_bar_def)
  then have fold: "foldl adx_step (0, 0, 0)
      (replicate 12 (flat_bar, flat_bar) @ [(flat_bar, rising_bar), (rising_bar, wide_bar)])
      = (5, 4, 14)"
    by (simp add: adx_step_def true_range_def flat_bar_def rising_bar_def wide_bar_def)
  have round: "py_round (100 / 9) 1 = 11.1"
    by (simp add: py_round_def Let_def)
  have "calc_adx ranging_bars 14
      = (case foldl adx_step (0, 0, 0)
          (zip (last_n 15 ranging_bars) (tl (last_n 15 ranging_bars))) of
          (plus_dm, minus_dm, tr_sum) \<Rightarrow>
            if tr_sum = 0 then 25
            else
              let plus_di = (plus_dm / tr_sum) * 100;
                  minus_di = (minus_dm / tr_sum) * 100
              in if plus_di + minus_di = 0 then 25
                 else
                   let dx = \<bar>plus_di - minus_di\<bar> / (plus_di + minus_di) * 100
                   in py_round (max 0 (min 100 dx)) 1)"
    by (simp add: calc_adx_def ranging_length Let_def)
  also have "\<dots> = py_round (100 / 9) 1"
    unfolding ranging_pairs fold by (simp add: Let_def)
  finally show ?thesis by (simp only: round)
qed

lemma ranging_scores:
  "compute_scores ranging_bars 2000
     = (\<lparr>sc_trend = 0, sc_momentum = - 50, sc_macd = 0, sc_volatility = 0, sc_strength = 0\<rparr>,
        [RSI_extreme_overbought 100])"
  by (simp add: compute_scores_def Let_def ranging_closes flat_sma20 flat_sma50 flat_rsi flat_macd
      flat_bollinger ranging_stochastic ranging_adx trend_part_def truthy_def rsi_part_def
      stoch_part_def momentum_part_def macd_part_def volatility_part_def strength_part_def)

lemma ranging_weighted_score:
  "weighted_score (fst (compute_scores ranging_bars 2000)) = - 12.5"
  by (simp add: ranging_scores weighted_score_def)

subsection \<open>The float product of the ADX filter\<close>

lemma bit_length_numeral [simp]:
  "bit_length (numeral k) = Suc (bit_length (numeral k div 2))"
  by (subst bit_length.simps) simp

lemma bit_length_0 [simp]: "bit_length 0 = 0"
  by (subst bit_length.simps) simp

lemma bit_length_1 [simp]: "bit_length (Suc 0) = Suc 0"
  by (subst bit_length.simps) simp

lemma float_times_0_7_int:
  assumes "0 \<le> c" and "c \<le> 95"
  shows "py_int (float_times_0_7 c) = (if c = 90 then 62 else 7 * c div 10)"
proof -
  have "c = 0 \<or> c = 1 \<or> c = 2 \<or> c = 3 \<or> c = 4 \<or> c = 5 \<or> c = 6 \<or> c = 7
      \<or> c = 8 \<or> c = 9 \<or> c = 10 \<or> c = 11 \<or> c = 12 \<or> c = 13 \<or> c = 14
      \<or> c = 15 \<or> c = 16 \<or> c = 17 \<or> c = 18 \<or> c = 19 \<or> c = 20 \<or> c = 21
      \<or> c = 22 \<or> c = 23 \<or> c = 24 \<or> c = 25 \<or> c = 26 \<or> c = 27 \<or> c = 28
      \<or> c = 29 \<or> c = 30 \<or> c = 31 \<or> c = 32 \<or> c = 33 \<or> c = 34 \<or> c = 35
      \<or> c = 36 \<or> c = 37 \<or> c = 38 \<or> c = 39 \<or> c = 40 \<or> c = 41 \<or> c = 42
      \<or> c = 43 \<or> c = 44 \<or> c = 45 \<or> c = 46 \<or> c = 47 \<or> c = 48 \<or> c = 49
      \<or> c = 50 \<or> c = 51 \<or> c = 52 \<or> c = 53 \<or> c = 54 \<or> c = 55 \<or> c = 56
      \<or> c = 57 \<or> c = 58 \<or> c = 59 \<or> c = 60 \<or> c = 61 \<or> c = 62 \<or> c = 63
      \<or> c = 64 \<or> c = 65 \<or> c = 66 \<or> c = 67 \<or> c = 68 \<or> c = 69 \<or> c = 70
      \<or> c = 71 \<or> c = 72 \<or> c = 73 \<or> c = 74 \<or> c = 75 \<or> c = 76 \<or> c = 77
      \<or> c = 78 \<or> c = 79 \<or> c = 80 \<or> c = 81 \<or> c = 82 \<or> c = 83 \<or> c = 84
      \<or> c = 85 \<or> c = 86 \<or> c = 87 \<or> c = 88 \<or> c = 89 \<or> c = 90 \<or> c = 91
      \<or> c = 92 \<or> c = 93 \<or> c = 94 \<or> c = 95"
    using assms by presburger
  then show ?thesis
    by (elim disjE)
      (simp_all add: float_times_0_7_def round_to_53_bits_def Let_def py_int_def)
qed

subsection \<open>The parts of the result of the scorer\<close>

lemma generate_signal_signal:
  "50 \<le> length bars \<Longrightarrow>
   sr_signal (fst (generate_signal env bars bid s))
     = fst (determine_signal (weighted_score (fst (compute_scores bars bid))))"
  by (simp add: generate_signal_def Let_def split_beta)

lemma generate_signal_confidence:
  "50 \<le> length bars \<Longrightarrow>
   sr_confidence (fst (generate_signal env bars bid s))
     = fst (adx_filter (calc_adx bars 14)
         (snd (determine_signal (weighted_score (fst (compute_scores bars bid)))),
          snd (compute_scores bars bid)))"
  by (simp add: generate_signal_def Let_def split_beta)

lemma generate_signal_state:
  "50 \<le> length bars \<Longrightarrow>
   snd (generate_signal env bars bid s)
     = track_change env
         (sr_signal (fst (generate_signal env bars bid s)))
         (sr_confidence (fst (generate_signal env bars bid s)))
         (weighted_score (fst (compute_scores bars bid)))
         (snd (adx_filter (calc_adx bars 14)
            (snd (determine_signal (weighted_score (fst (compute_scores bars bid)))),
             snd (compute_scores bars bid))))
         bid
         (snd (validate_backtest (env_validate_time env) (env_validate_io env) bid bars s))"
  by (simp add: generate_signal_def Let_def split_beta)

subsection \<open>Auxiliary facts about the validator and the change of signal\<close>

lemma validate_one_due:
  assumes "spec_due now p"
  shows "validate_one now current (queue, res, validated) p
    = (remove1 p queue, spec_tally current res p, validated @ [spec_record current p])"
  using assms
  by (simp add: validate_one_def spec_due_def BACKTEST_SECONDS_def MIN_MOVE_PIPS_def Let_def
      spec_tally_def spec_record_def spec_win_def spec_pips_def)

lemma validate_one_not_due:
  assumes "\<not> spec_due now p"
  shows "validate_one now current (queue, res, validated) p = (queue, res, validated)"
  using assms by (simp add: validate_one_def spec_due_def BACKTEST_SECONDS_def)

lemma validate_loop:
  assumes "\<forall>k \<in> set kept. \<not> spec_due now k"
  shows "foldl (validate_one now current) (kept @ todo, res, validated) todo
    = (kept @ filter (\<lambda>p. \<not> spec_due now p) todo,
       foldl (spec_tally current) res (filter (spec_due now) todo),
       validated @ map (spec_record current) (filter (spec_due now) todo))"
  using assms
proof (induction todo arbitrary: kept res validated)
  case Nil
  then show ?case by simp
next
  case (Cons p todo)
  show ?case
  proof (cases "spec_due now p")
    case True
    with Cons.prems have "p \<notin> set kept" by blast
    then have "remove1 p (kept @ p # todo) = kept @ todo"
      by (simp add: remove1_append)
    with True Cons.IH [OF Cons.prems] show ?thesis
      by (simp add: validate_one_due)
  next
    case False
    with Cons.prems have "\<forall>k \<in> set (kept @ [p]). \<not> spec_due now k" by simp
    from Cons.IH [OF this] False show ?thesis
      by (simp add: validate_one_not_due)
  qed
qed

lemma capped_ball:
  "\<forall>x \<in> set xs. P x \<Longrightarrow> \<forall>x \<in> set (if length xs > n then last_n n xs else xs). P x"
  using last_n_ball [of xs P n] by simp

lemma save_backtest_data_pending:
  "backtest_pending (save_backtest_data io s) = backtest_pending s"
  by (cases io) (simp_all add: save_backtest_data_def)

lemma save_backtest_data_results:
  "backtest_results (save_backtest_data io s) = backtest_results s"
  by (cases io) (simp_all add: save_backtest_data_def)

lemma validate_backtest_run:
  "validate_backtest now io current bars s
    = (map (spec_record current) (filter (spec_due now) (backtest_pending s)),
       if map (spec_record current) (filter (spec_due now) (backtest_pending s)) \<noteq> []
       then save_backtest_data io
         (s\<lparr>backtest_pending :=
              if length (filter (\<lambda>p. \<not> spec_due now p) (backtest_pending s)) > 20
              then last_n 20 (filter (\<lambda>p. \<not> spec_due now p) (backtest_pending s))
              else filter (\<lambda>p. \<not> spec_due now p) (backtest_pending s),
            backtest_results :=
              foldl (spec_tally current) (backtest_results s)
                (filter (spec_due now) (backtest_pending s))\<rparr>)
       else s\<lparr>backtest_pending :=
              if length (filter (\<lambda>p. \<not> spec_due now p) (backtest_pending s)) > 20
              then last_n 20 (filter (\<lambda>p. \<not> spec_due now p) (backtest_pending s))
              else filter (\<lambda>p. \<not> spec_due now p) (backtest_pending s),
            backtest_results :=
              foldl (spec_tally current) (backtest_results s)
                (filter (spec_due now) (backtest_pending s))\<rparr>)"
proof -
  have loop: "foldl (validate_one now current) (backtest_pending s, backtest_results s, [])
       (backtest_pending s)
     = (filter (\<lambda>p. \<not> spec_due now p) (backtest_pending s),
        foldl (spec_tally current) (backtest_results s) (filter (spec_due now) (backtest_pending s)),
        map (spec_record current) (filter (spec_due now) (backtest_pending s)))"
    using validate_loop [of "[]" now current "backtest_pending s" "backtest_results s" "[]"]
    by simp
  show ?thesis
    unfolding validate_backtest_def loop Let_def by (simp only: prod.case)
qed

lemma validate_backtest_queue:
  "backtest_pending (snd (validate_backtest now io current bars s))
    = (if length (filter (\<lambda>p. \<not> spec_due now p) (backtest_pending s)) > 20
       then last_n 20 (filter (\<lambda>p. \<not> spec_due now p) (backtest_pending s))
       else filter (\<lambda>p. \<not> spec_due now p) (backtest_pending s))"
  unfolding validate_backtest_run by (simp add: save_backtest_data_pending)

lemma validate_backtest_counters:
  "backtest_results (snd (validate_backtest now io current bars s))
    = foldl (spec_tally current) (backtest_results s) (filter (spec_due now) (backtest_pending s))"
  unfolding validate_backtest_run by (simp add: save_backtest_data_results)

lemma save_backtest_data_frame:
  "last_signal (save_backtest_data io s) = last_signal s"
  "signal_stats (save_backtest_data io s) = signal_stats s"
  "signal_history (save_backtest_data io s) = signal_history s"
  by (cases io; simp add: save_backtest_data_def)+

lemma validate_backtest_frame:
  "last_signal (snd (validate_backtest now io current bars s)) = last_signal s"
  "signal_stats (snd (validate_backtest now io current bars s)) = signal_stats s"
  "signal_history (snd (validate_backtest now io current bars s)) = signal_history s"
  by (simp_all add: validate_backtest_def Let_def split_beta save_backtest_data_frame)

lemma track_change_changed:
  assumes "last_signal t \<noteq> Some signal"
  shows "signal_stats (track_change env signal confidence score reasons bid t)
      = count_signal signal ((signal_stats t)\<lparr>st_total := st_total (signal_stats t) + 1\<rparr>)"
    and "backtest_pending (track_change env signal confidence score reasons bid t)
      = backtest_pending t @
          [\<lparr>ps_signal = signal, ps_price = bid, ps_timestamp = env_pending_time env,
            ps_time = env_now_time env, ps_confidence = confidence\<rparr>]"
    and "backtest_results (track_change env signal confidence score reasons bid t)
      = backtest_results t"
    and "last_signal (track_change env signal confidence score reasons bid t) = Some signal"
    and "signal_history (track_change env signal confidence score reasons bid t)
      = (let history = signal_history t @
             [\<lparr>he_time = env_now_time env, he_date = env_now_date env, he_signal = signal,
               he_price = py_round bid 2, he_confidence = confidence,
               he_score = py_round score 1, he_reasons = take 3 reasons,
               he_prev_signal = last_signal t\<rparr>]
         in if length history > 100 then last_n 100 history else history)"
  using assms
  by (cases "env_change_io env"; simp add: track_change_def Let_def save_backtest_data_def)+

lemma track_change_changed_file:
  assumes "last_signal t \<noteq> Some signal" "env_change_io env = Io_ok"
  shows "backtest_file (track_change env signal confidence score reasons bid t)
      = Some (backtest_pending t @
          [\<lparr>ps_signal = signal, ps_price = bid, ps_timestamp = env_pending_time env,
            ps_time = env_now_time env, ps_confidence = confidence\<rparr>], backtest_results t)"
  using assms by (simp add: track_change_def Let_def save_backtest_data_def)

lemma capped_last:
  "h \<noteq> [] \<Longrightarrow> 0 < n \<Longrightarrow> (if length h > n then last_n n h else h) \<noteq> []
     \<and> last (if length h > n then last_n n h else h) = last h"
  by (auto simp: last_n_def last_drop)

lemma determine_signal_kinds:
  "fst (determine_signal x) = ''BUY'' \<or> fst (determine_signal x) = ''SELL''
   \<or> fst (determine_signal x) = ''HOLD''"
  by (simp add: determine_signal_def)

subsection \<open>C1: resolving the pending signals that are due\<close>

text \<open>
  Claim C1. \<^verbatim>\<open>validate_backtest\<close> resolves exactly the pending signals that are at least
  14400 seconds old, in queue order. Each is scored by the rule of the specification
  (\<open>spec_pips\<close>, \<open>spec_win\<close>), the counters are advanced once per resolved signal as
  \<open>spec_tally\<close> says, and the resolved signals leave the queue: what remains are the
  signals not yet due (the most recent 20 of them), so no due signal stays pending.
\<close>

theorem validate_backtest_resolves_due:
  "fst (validate_backtest now io current bars s)
     = map (spec_record current) (filter (spec_due now) (backtest_pending s))
   \<and> backtest_results (snd (validate_backtest now io current bars s))
     = foldl (spec_tally current) (backtest_results s) (filter (spec_due now) (backtest_pending s))
   \<and> backtest_pending (snd (validate_backtest now io current bars s))
     = (if length (filter (\<lambda>p. \<not> spec_due now p) (backtest_pending s)) > 20
        then last_n 20 (filter (\<lambda>p. \<not> spec_due now p) (backtest_pending s))
        else filter (\<lambda>p. \<not> spec_due now p) (backtest_pending s))
   \<and> (\<forall>p \<in> set (backtest_pending (snd (validate_backtest now io current bars s))).
         \<not> spec_due now p)"
proof -
  let ?rest = "filter (\<lambda>p. \<not> spec_due now p) (backtest_pending s)"
  let ?queue = "if length ?rest > 20 then last_n 20 ?rest else ?rest"
  have none_due: "\<forall>p \<in> set ?queue. \<not> spec_due now p"
    by (rule capped_ball) simp
  have nd: "\<forall>p \<in> set (backtest_pending (snd (validate_backtest now io current bars s))).
      \<not> spec_due now p"
    unfolding validate_backtest_queue by (rule none_due)
  have v: "fst (validate_backtest now io current bars s)
      = map (spec_record current) (filter (spec_due now) (backtest_pending s))"
    unfolding validate_backtest_run by (simp only: fst_conv)
  show ?thesis by (intro conjI v validate_backtest_counters validate_backtest_queue nd)
qed

theorem validate_backtest_resolves_due_witness:
  "fst (validate_backtest 1700014400 Io_ok 2001.10 [flat_bar]
      (fresh_scorer\<lparr>backtest_pending :=
         [\<lparr>ps_signal = ''BUY'', ps_price = 2000, ps_timestamp = 1700000000,
           ps_time = ''10:00:00'', ps_confidence = 70\<rparr>]\<rparr>))
     = [\<lparr>vs_signal = ''BUY'', vs_entry = 2000, vs_exit = 2001.10, vs_pips = 110, vs_win = True,
         vs_time = ''10:00:00''\<rparr>]
   \<and> backtest_results (snd (validate_backtest 1700014400 Io_ok 2001.10 [flat_bar]
      (fresh_scorer\<lparr>backtest_pending :=
         [\<lparr>ps_signal = ''BUY'', ps_price = 2000, ps_timestamp = 1700000000,
           ps_time = ''10:00:00'', ps_confidence = 70\<rparr>]\<rparr>)))
     = \<lparr>bt_total = 1, bt_wins = 1, bt_losses = 0, bt_buy_wins = 1, bt_buy_total = 1,
        bt_sell_wins = 0, bt_sell_total = 0\<rparr>
   \<and> backtest_pending (snd (validate_backtest 1700014400 Io_ok 2001.10 [flat_bar]
      (fresh_scorer\<lparr>backtest_pending :=
         [\<lparr>ps_signal = ''BUY'', ps_price = 2000, ps_timestamp = 1700000000,
           ps_time = ''10:00:00'', ps_confidence = 70\<rparr>]\<rparr>))) = []
   \<and> backtest_results (snd (validate_backtest 1700014400 Io_ok 2000.90 [flat_bar]
      (fresh_scorer\<lparr>backtest_pending :=
         [\<lparr>ps_signal = ''BUY'', ps_price = 2000, ps_timestamp = 1700000000,
           ps_time = ''10:00:00'', ps_confidence = 70\<rparr>]\<rparr>)))
     = \<lparr>bt_total = 1, bt_wins = 0, bt_losses = 1, bt_buy_wins = 0, bt_buy_total = 1,
        bt_sell_wins = 0, bt_sell_total = 0\<rparr>"
proof -
  let ?s = "fresh_scorer\<lparr>backtest_pending :=
         [\<lparr>ps_signal = ''BUY'', ps_price = 2000, ps_timestamp = 1700000000,
           ps_time = ''10:00:00'', ps_confidence = 70\<rparr>]\<rparr>"
  have r: "py_round 110 (Suc 0) = 110" by (simp add: py_round_def Let_def)
  from validate_backtest_resolves_due [of 1700014400 Io_ok "2001.10" "[flat_bar]" ?s]
    validate_backtest_resolves_due [of 1700014400 Io_ok "2000.90" "[flat_bar]" ?s]
  show ?thesis
    by (simp add: fresh_scorer_def spec_due_def spec_tally_def spec_record_def spec_win_def
        spec_pips_def r)
qed

subsection \<open>C2: merging a bar whose timestamp is known, or new\<close>

lemma sort_key_oldest_last:
  "sorted (map f c) \<Longrightarrow> \<forall>x \<in> set c. f b < f x \<Longrightarrow> sort_key f (c @ [b]) = b # c"
proof (induction c)
  case Nil
  then show ?case by simp
next
  case (Cons x c)
  then have "sort_key f (c @ [b]) = b # c" by simp
  moreover have "\<not> f x \<le> f b" using Cons.prems(2) by auto
  moreover have "insort_key f x c = x # c"
    using Cons.prems(1) by (intro insort_is_Cons) auto
  ultimately show ?case by simp
qed

lemma old_bar_dropped:
  assumes "cache_invariant (m5_cache s)" "length (m5_cache s) = 2000"
    "\<not> bar_synthetic b" "bar_time b \<noteq> []" "\<forall>x \<in> set (m5_cache s). bar_time b < bar_time x"
  shows "m5_cache (merge_bars_into_cache [b] s) = m5_cache s"
proof -
  have new: "bar_time b \<notin> set (map bar_time (m5_cache s))" using assms(5) by auto
  have srt: "sort_key bar_time (m5_cache s @ [b]) = b # m5_cache s"
    using assms(1,5) by (intro sort_key_oldest_last) (simp_all add: cache_invariant_def)
  show ?thesis
    using assms(2)
    by (simp add: merge_bars_into_cache_def merge_loop_append [OF assms(3,4) new] srt last_n_def
        M5_CACHE_MAX_BARS_def)
qed

text \<open>
  Claim C2, as stated, fails on a full cache: a bar older than all 2000 cached bars is
  appended, sorted to the front and trimmed away at once. Merging it twice, with two
  different closes, leaves no entry for its timestamp instead of exactly one.
\<close>

theorem merge_twice_counterexample:
  "cache_invariant (m5_cache full_m5)
   \<and> \<not> bar_synthetic (numbered_bar 0 2) \<and> \<not> bar_synthetic (numbered_bar 0 3)
   \<and> bar_time (numbered_bar 0 2) = stamp 0 \<and> bar_time (numbered_bar 0 3) = stamp 0
   \<and> bar_c (numbered_bar 0 2) \<noteq> bar_c (numbered_bar 0 3)
   \<and> count_list
        (map bar_time (m5_cache (merge_bars_into_cache [numbered_bar 0 3]
           (merge_bars_into_cache [numbered_bar 0 2] full_m5))))
        (stamp 0) = 0"
proof -
  have inv: "cache_invariant (m5_cache full_m5)"
    by (simp add: full_m5_def full_cache_invariant)
  have len: "length (m5_cache full_m5) = 2000" by (simp add: full_m5_def full_cache_def)
  have newer: "\<forall>x \<in> set (m5_cache full_m5). bar_time (numbered_bar 0 2) < bar_time x"
    "\<forall>x \<in> set (m5_cache full_m5). bar_time (numbered_bar 0 3) < bar_time x"
    using full_cache_newer by (simp_all add: full_m5_def numbered_bar_def)
  have ne: "bar_time (numbered_bar 0 2) \<noteq> []" "bar_time (numbered_bar 0 3) \<noteq> []"
    by (simp_all add: numbered_bar_def stamp_def)
  have ns: "\<not> bar_synthetic (numbered_bar 0 2)" "\<not> bar_synthetic (numbered_bar 0 3)"
    by (simp_all add: numbered_bar_def)
  let ?s1 = "merge_bars_into_cache [numbered_bar 0 2] full_m5"
  have first: "m5_cache ?s1 = full_cache"
    using old_bar_dropped [OF inv len ns(1) ne(1) newer(1)] by (simp add: full_m5_def)
  have second: "m5_cache (merge_bars_into_cache [numbered_bar 0 3] ?s1) = full_cache"
    using old_bar_dropped [of ?s1 "numbered_bar 0 3"] inv len ns(2) ne(2) newer(2) first
    by (simp add: full_m5_def)
  have "stamp 0 \<notin> set (map bar_time full_cache)"
    using full_cache_newer by auto
  then have "count_list (map bar_time full_cache) (stamp 0) = 0" by simp
  then show ?thesis using inv ns second by (simp add: numbered_bar_def)
qed

lemma single_by_key:
  "distinct (map f xs) \<Longrightarrow> b \<in> set xs \<Longrightarrow> filter (\<lambda>x. f x = f b) xs = [b]"
proof (induction xs)
  case Nil
  then show ?case by simp
next
  case (Cons x xs)
  show ?case
  proof (cases "x = b")
    case True
    with Cons.prems(1) have "f b \<notin> f ` set xs" by simp
    then have "f y \<noteq> f b" if "y \<in> set xs" for y
      using that by (metis imageI)
    then have "filter (\<lambda>x. f x = f b) xs = []"
      by (auto simp: filter_empty_conv)
    with True show ?thesis by simp
  next
    case False
    with Cons.prems have "b \<in> set xs" "f x \<noteq> f b" by auto
    with Cons show ?thesis by simp
  qed
qed

lemma at_time_absent: "t \<notin> set (map bar_time c) \<Longrightarrow> at_time t c = []"
  by (auto simp: at_time_def filter_empty_conv)

lemma at_time_present: "t \<in> set (map bar_time c) \<longleftrightarrow> at_time t c \<noteq> []"
  by (auto simp: at_time_def filter_empty_conv)

lemma at_time_nonempty: "t \<in> set (map bar_time c) \<Longrightarrow> at_time t c \<noteq> []"
  by (auto simp: at_time_def filter_empty_conv)

lemma update_existing_at_time:
  "distinct (map bar_time c) \<Longrightarrow> bar_time b \<in> set (map bar_time c) \<Longrightarrow>
   at_time t (fst (update_existing b c)) = (if bar_time b = t then [b] else at_time t c)"
proof (induction c)
  case Nil
  then show ?case by simp
next
  case (Cons cb rest)
  show ?case
  proof (cases "bar_time cb = bar_time b")
    case True
    with Cons.prems(1) have "bar_time b \<notin> set (map bar_time rest)" by simp
    then have "at_time (bar_time b) rest = []" by (rule at_time_absent)
    with True show ?thesis by (auto simp: at_time_def)
  next
    case False
    with Cons.prems have "distinct (map bar_time rest)" "bar_time b \<in> set (map bar_time rest)"
      by auto
    then have "at_time t (fst (update_existing b rest))
        = (if bar_time b = t then [b] else at_time t rest)"
      by (rule Cons.IH)
    with False show ?thesis by (auto simp: at_time_def split: prod.splits)
  qed
qed

lemma merge_one_at_time:
  assumes "mv_ok mv"
  shows "at_time t (mv_cache (merge_one mv b))
    = (if mergeable b \<and> bar_time b = t then [b] else at_time t (mv_cache mv))"
proof (cases "mergeable b")
  case False
  then have "merge_one mv b = mv" by (auto simp: merge_one_def mergeable_def)
  with False show ?thesis by simp
next
  case True
  then have ns: "\<not> bar_synthetic b" and ne: "bar_time b \<noteq> []" by (simp_all add: mergeable_def)
  from assms have ex: "existing_times mv = set (map bar_time (mv_cache mv))"
    and d: "distinct (map bar_time (mv_cache mv))" by (simp_all add: mv_ok_def)
  show ?thesis
  proof (cases "bar_time b \<in> set (map bar_time (mv_cache mv))")
    case known: True
    then have "mv_cache (merge_one mv b) = fst (update_existing b (mv_cache mv))"
      using ns ne ex by (simp add: merge_one_def split: prod.splits)
    then show ?thesis
      using update_existing_at_time [OF d known, of t] True by simp
  next
    case new: False
    then have c: "mv_cache (merge_one mv b) = mv_cache mv @ [b]"
      using ns ne ex by (simp add: merge_one_def)
    have "at_time (bar_time b) (mv_cache mv) = []" using new by (rule at_time_absent)
    then show ?thesis unfolding c using True by (auto simp: at_time_def)
  qed
qed

lemma foldl_merge_one_at_time:
  "mv_ok mv \<Longrightarrow>
   at_time t (mv_cache (foldl merge_one mv bs))
     = (if t \<in> set (map bar_time (filter mergeable bs))
        then [last (at_time t (filter mergeable bs))] else at_time t (mv_cache mv))"
proof (induction bs arbitrary: mv)
  case Nil
  show ?case by simp
next
  case (Cons b bs)
  have ok: "mv_ok (merge_one mv b)" using Cons.prems by (rule merge_one_ok)
  have step: "at_time t (mv_cache (merge_one mv b))
      = (if mergeable b \<and> bar_time b = t then [b] else at_time t (mv_cache mv))"
    by (rule merge_one_at_time [OF Cons.prems])
  have IH: "at_time t (mv_cache (foldl merge_one (merge_one mv b) bs))
      = (if t \<in> set (map bar_time (filter mergeable bs))
         then [last (at_time t (filter mergeable bs))]
         else at_time t (mv_cache (merge_one mv b)))"
    by (rule Cons.IH [OF ok])
  show ?case
  proof (cases "t \<in> set (map bar_time (filter mergeable bs))")
    case True
    then have ne: "at_time t (filter mergeable bs) \<noteq> []" by (rule at_time_nonempty)
    then have "last (at_time t (filter mergeable (b # bs))) = last (at_time t (filter mergeable bs))"
      by (simp add: at_time_def)
    moreover have "t \<in> set (map bar_time (filter mergeable (b # bs)))" using True by simp
    ultimately show ?thesis using True IH by simp
  next
    case False
    then have e: "at_time t (filter mergeable bs) = []" by (rule at_time_absent)
    show ?thesis
    proof (cases "mergeable b \<and> bar_time b = t")
      case True
      then have "at_time t (filter mergeable (b # bs)) = [b]" using e by (simp add: at_time_def)
      moreover have "t \<in> set (map bar_time (filter mergeable (b # bs)))" using True by auto
      ultimately show ?thesis using False IH step True by simp
    next
      case nb: False
      then have "t \<notin> set (map bar_time (filter mergeable (b # bs)))" using False by auto
      then show ?thesis using False IH step nb by simp
    qed
  qed
qed

lemma merge_loop_at_time:
  assumes "distinct (map bar_time c)"
  shows "at_time t (mv_cache (merge_loop bs c))
    = (if t \<in> set (map bar_time (filter mergeable bs))
       then [last (at_time t (filter mergeable bs))] else at_time t c)"
proof -
  have "mv_ok \<lparr>mv_cache = c, existing_times = set (map bar_time c), added = 0, updated = 0\<rparr>"
    using assms by (simp add: mv_ok_def)
  from foldl_merge_one_at_time [OF this, of t bs] show ?thesis
    by (simp add: merge_loop_def)
qed

lemma merge_loop_times:
  "\<exists>ts. map bar_time (mv_cache (merge_loop bs c)) = map bar_time c @ ts"
  using foldl_merge_one_times [of "\<lparr>mv_cache = c, existing_times = set (map bar_time c),
     added = 0, updated = 0\<rparr>" bs]
  unfolding merge_loop_def by auto

lemma merge_loop_in_place:
  "map bar_time (take (length c) (mv_cache (merge_loop bs c))) = map bar_time c"
proof -
  obtain ts where "map bar_time (mv_cache (merge_loop bs c)) = map bar_time c @ ts"
    using merge_loop_times by blast
  then show ?thesis by (simp add: take_map [symmetric])
qed

lemma merge_loop_times_set:
  assumes "distinct (map bar_time c)"
  shows "set (map bar_time (mv_cache (merge_loop bs c)))
    = set (map bar_time c) \<union> set (map bar_time (filter mergeable bs))"
proof (rule set_eqI)
  fix t
  show "t \<in> set (map bar_time (mv_cache (merge_loop bs c)))
    \<longleftrightarrow> t \<in> set (map bar_time c) \<union> set (map bar_time (filter mergeable bs))"
    unfolding at_time_present Un_iff merge_loop_at_time [OF assms] by simp
qed

lemma merge_loop_appended:
  assumes "distinct (map bar_time c)"
  shows "set (map bar_time (drop (length c) (mv_cache (merge_loop bs c))))
    = set (map bar_time (filter mergeable bs)) - set (map bar_time c)"
proof -
  obtain ts where ts: "map bar_time (mv_cache (merge_loop bs c)) = map bar_time c @ ts"
    using merge_loop_times by blast
  have "distinct (map bar_time (mv_cache (merge_loop bs c)))"
    using merge_loop_ok [OF assms] by (simp add: mv_ok_def)
  then have disj: "set ts \<inter> set (map bar_time c) = {}" unfolding ts by auto
  have "set (map bar_time c) \<union> set ts
      = set (map bar_time c) \<union> set (map bar_time (filter mergeable bs))"
    using merge_loop_times_set [OF assms, of bs] unfolding ts by simp
  then have "set ts = set (map bar_time (filter mergeable bs)) - set (map bar_time c)"
    using disj by blast
  moreover have "map bar_time (drop (length c) (mv_cache (merge_loop bs c))) = ts"
    unfolding drop_map [symmetric] ts by simp
  ultimately show ?thesis by simp
qed

lemma merge_result:
  assumes "cache_invariant (m5_cache s)"
  shows "m5_cache (merge_bars_into_cache bs s)
    = last_n 2000 (sort_key bar_time (mv_cache (merge_loop bs (m5_cache s))))"
proof -
  let ?mv = "merge_loop bs (m5_cache s)"
  have same: "mv_cache ?mv = last_n 2000 (sort_key bar_time (mv_cache ?mv))"
    if "map bar_time (mv_cache ?mv) = map bar_time (m5_cache s)"
  proof -
    from that assms have "sorted (map bar_time (mv_cache ?mv))"
      by (simp add: cache_invariant_def)
    then have "sort_key bar_time (mv_cache ?mv) = mv_cache ?mv" by (rule sort_key_id_if_sorted)
    moreover have "length (mv_cache ?mv) = length (m5_cache s)"
      using that by (rule map_eq_imp_length_eq)
    then have "length (mv_cache ?mv) \<le> 2000" using assms by (simp add: cache_invariant_def)
    ultimately show ?thesis by (simp add: last_n_def)
  qed
  show ?thesis
  proof (cases "bs = []")
    case True
    then have "mv_cache ?mv = m5_cache s" by (simp add: merge_loop_def)
    with same True show ?thesis by (simp add: merge_bars_into_cache_def)
  next
    case False
    show ?thesis
    proof (cases "added ?mv > 0 \<or> updated ?mv > 0")
      case True
      with False show ?thesis
        by (simp add: merge_bars_into_cache_def Let_def M5_CACHE_MAX_BARS_def)
    next
      case unchanged: False
      then have "map bar_time (mv_cache ?mv) = map bar_time (m5_cache s)"
        by (simp add: merge_loop_no_added)
      then have "mv_cache ?mv = last_n 2000 (sort_key bar_time (mv_cache ?mv))" by (rule same)
      moreover have "m5_cache (merge_bars_into_cache bs s) = mv_cache ?mv"
        using False unchanged by (simp add: merge_bars_into_cache_def Let_def)
      ultimately show ?thesis by simp
    qed
  qed
qed

lemma kept_iff_few_newer:
  assumes "sorted (map f xs)" "distinct (map f xs)" "x \<in> set xs"
  shows "x \<in> set (last_n n xs) \<longleftrightarrow> length (filter (\<lambda>y. f x < f y) xs) < n"
proof -
  let ?k = "length xs - n"
  let ?P = "\<lambda>y. f x < f y"
  have "filter ?P (take ?k xs @ drop ?k xs) = filter ?P (take ?k xs) @ filter ?P (drop ?k xs)"
    by (rule filter_append)
  then have split: "filter ?P xs = filter ?P (take ?k xs) @ filter ?P (drop ?k xs)"
    by simp
  show ?thesis
  proof (cases "x \<in> set (drop ?k xs)")
    case True
    have "\<not> ?P y" if "y \<in> set (take ?k xs)" for y
      using take_less_drop [OF assms(1,2) that True] by simp
    then have "filter ?P (take ?k xs) = []" by (simp add: filter_empty_conv)
    moreover have "length (filter ?P (drop ?k xs)) < length (drop ?k xs)"
      by (rule length_filter_less [OF True]) simp
    moreover have "length (drop ?k xs) \<le> n" by simp
    ultimately have "length (filter ?P xs) < n" using split by simp
    with True show ?thesis by (simp add: last_n_def)
  next
    case False
    have "set xs = set (take ?k xs) \<union> set (drop ?k xs)"
      by (simp flip: set_append)
    with False assms(3) have in_take: "x \<in> set (take ?k xs)" by simp
    then have "take ?k xs \<noteq> []" by auto
    then have "0 < ?k" by (cases "?k") simp_all
    then have len: "length (drop ?k xs) = n" by simp
    have "?P y" if "y \<in> set (drop ?k xs)" for y
      by (rule take_less_drop [OF assms(1,2) in_take that])
    then have "filter ?P (drop ?k xs) = drop ?k xs" by (simp add: filter_id_conv)
    then have "n \<le> length (filter ?P xs)" using split len by simp
    with False show ?thesis by (simp add: last_n_def)
  qed
qed

lemma at_time_result:
  assumes "cache_invariant (m5_cache s)"
  shows "at_time t (m5_cache (merge_bars_into_cache bs s))
    = (if newer_than t (mv_cache (merge_loop bs (m5_cache s))) < 2000
       then at_time t (mv_cache (merge_loop bs (m5_cache s))) else [])"
proof -
  let ?merged = "mv_cache (merge_loop bs (m5_cache s))"
  let ?srt = "sort_key bar_time ?merged"
  let ?result = "m5_cache (merge_bars_into_cache bs s)"
  have r: "?result = last_n 2000 ?srt" using assms by (rule merge_result)
  have d: "distinct (map bar_time ?merged)"
    using merge_loop_ok [of "m5_cache s" bs] assms by (simp add: mv_ok_def cache_invariant_def)
  then have ds: "distinct (map bar_time ?srt)" by (simp add: distinct_map_sort_key)
  have ss: "sorted (map bar_time ?srt)" by simp
  have dr: "distinct (map bar_time ?result)" unfolding r using ds by (rule distinct_last_n)
  have sub: "set ?result \<subseteq> set ?merged"
    unfolding r last_n_def using set_drop_subset [of "length ?srt - 2000" ?srt] by simp
  show ?thesis
  proof (cases "at_time t ?merged = []")
    case True
    then have "\<forall>x \<in> set ?merged. bar_time x \<noteq> t"
      by (simp add: at_time_def filter_empty_conv)
    with sub have "\<forall>x \<in> set ?result. bar_time x \<noteq> t" by blast
    then have "at_time t ?result = []" by (simp add: at_time_def filter_empty_conv)
    with True show ?thesis by simp
  next
    case False
    then obtain x where x: "x \<in> set ?merged" "bar_time x = t"
      by (auto simp: at_time_def filter_empty_conv)
    have one: "at_time t ?merged = [x]"
      using single_by_key [OF d x(1)] x(2) by (simp add: at_time_def)
    have "x \<in> set ?srt" using x(1) by simp
    then have "x \<in> set (last_n 2000 ?srt)
        \<longleftrightarrow> length (filter (\<lambda>y. bar_time x < bar_time y) ?srt) < 2000"
      by (rule kept_iff_few_newer [OF ss ds])
    moreover have "length (filter (\<lambda>y. bar_time x < bar_time y) ?srt) = newer_than t ?merged"
      unfolding newer_than_def x(2) filter_sort by simp
    ultimately have kept: "x \<in> set ?result \<longleftrightarrow> newer_than t ?merged < 2000"
      unfolding r by simp
    show ?thesis
    proof (cases "x \<in> set ?result")
      case True
      have "at_time t ?result = [x]"
        using single_by_key [OF dr True] x(2) by (simp add: at_time_def)
      with True kept one show ?thesis by simp
    next
      case gone: False
      have "bar_time y \<noteq> t" if "y \<in> set ?result" for y
      proof
        assume "bar_time y = t"
        moreover have "y \<in> set ?merged" using that sub by blast
        ultimately have "y \<in> set (at_time t ?merged)" by (simp add: at_time_def)
        with one have "y = x" by simp
        with that gone show False by simp
      qed
      then have "at_time t ?result = []" by (simp add: at_time_def filter_empty_conv)
      with gone kept show ?thesis by simp
    qed
  qed
qed

text \<open>
  Claim C2, amended. Let the cache satisfy its invariant, as it does after any earlier
  merge \<open>first_bars\<close>, and let \<open>new_bars\<close> be any list of bars merged next; the bars of it
  that are not skipped are the non-synthetic ones with a non-empty timestamp. The merge
  loop overwrites in place and appends: the entries that were in the cache keep their
  positions and timestamps, the entries behind them carry exactly the timestamps of the
  batch that the cache did not have, and for every timestamp the merged list has one
  entry if the batch or the cache has that timestamp, which is the last bar of the batch
  with it, or else the entry of the cache. The new cache is the merged list sorted and
  cut to its newest 2000. So merging bars of one timestamp, in one batch or in two merges
  one after the other, leaves exactly one entry for that timestamp, holding the values
  of the last bar, provided fewer than 2000 merged bars are newer; otherwise the trim
  leaves no entry for it.
\<close>

theorem merge_overwrites_or_appends:
  assumes "cache_invariant (m5_cache s)"
  shows
    "(let s1 = merge_bars_into_cache first_bars s;
          cache = m5_cache s1;
          batch = filter mergeable new_bars;
          merged = mv_cache (merge_loop new_bars cache);
          result = m5_cache (merge_bars_into_cache new_bars s1)
      in map bar_time (take (length cache) merged) = map bar_time cache
         \<and> set (map bar_time (drop (length cache) merged))
             = set (map bar_time batch) - set (map bar_time cache)
         \<and> (\<forall>t. at_time t merged
               = (if t \<in> set (map bar_time batch) then [last (at_time t batch)]
                  else at_time t cache))
         \<and> result = last_n 2000 (sort_key bar_time merged)
         \<and> (\<forall>t. at_time t result = (if newer_than t merged < 2000 then at_time t merged else []))
         \<and> (\<forall>t \<in> set (map bar_time batch).
               at_time t result
                 = (if newer_than t merged < 2000 then [last (at_time t batch)] else [])))"
proof -
  let ?s1 = "merge_bars_into_cache first_bars s"
  let ?cache = "m5_cache ?s1"
  let ?batch = "filter mergeable new_bars"
  let ?merged = "mv_cache (merge_loop new_bars ?cache)"
  let ?result = "m5_cache (merge_bars_into_cache new_bars ?s1)"
  have inv: "cache_invariant ?cache"
    using merge_invariant_and_eviction [OF assms, of first_bars] by (rule conjunct1)
  then have d: "distinct (map bar_time ?cache)" by (simp add: cache_invariant_def)
  have a: "map bar_time (take (length ?cache) ?merged) = map bar_time ?cache"
    by (rule merge_loop_in_place)
  have b: "set (map bar_time (drop (length ?cache) ?merged))
      = set (map bar_time ?batch) - set (map bar_time ?cache)"
    using d by (rule merge_loop_appended)
  have c: "at_time t ?merged
      = (if t \<in> set (map bar_time ?batch) then [last (at_time t ?batch)] else at_time t ?cache)"
    for t
    using d by (rule merge_loop_at_time)
  have r: "?result = last_n 2000 (sort_key bar_time ?merged)"
    using inv by (rule merge_result)
  have e: "at_time t ?result = (if newer_than t ?merged < 2000 then at_time t ?merged else [])"
    for t
    using inv by (rule at_time_result)
  have f: "at_time t ?result
      = (if newer_than t ?merged < 2000 then [last (at_time t ?batch)] else [])"
    if "t \<in> set (map bar_time ?batch)" for t
    unfolding e [of t] c [of t] using that by simp
  show ?thesis
    unfolding Let_def using a b c r e f by blast
qed
theorem merge_overwrites_or_appends_witness:
  "cache_invariant (m5_cache (initial_m5\<lparr>m5_cache := [flat_bar]\<rparr>))
   \<and> m5_cache (merge_bars_into_cache
         [flat_bar\<lparr>bar_time := ''2024.01.02 10:05:00'', bar_c := 2001\<rparr>]
         (initial_m5\<lparr>m5_cache := [flat_bar]\<rparr>))
       = [flat_bar, flat_bar\<lparr>bar_time := ''2024.01.02 10:05:00'', bar_c := 2001\<rparr>]
   \<and> ''2024.01.02 10:05:00''
       \<in> set (map bar_time (filter mergeable
           [flat_bar\<lparr>bar_time := ''2024.01.02 10:05:00'', bar_c := 2002\<rparr>,
            flat_bar\<lparr>bar_time := ''2024.01.02 10:10:00'', bar_c := 2003\<rparr>,
            flat_bar\<lparr>bar_time := ''2024.01.02 10:10:00'', bar_c := 2004\<rparr>]))
   \<and> mv_cache (merge_loop
         [flat_bar\<lparr>bar_time := ''2024.01.02 10:05:00'', bar_c := 2002\<rparr>,
          flat_bar\<lparr>bar_time := ''2024.01.02 10:10:00'', bar_c := 2003\<rparr>,
          flat_bar\<lparr>bar_time := ''2024.01.02 10:10:00'', bar_c := 2004\<rparr>]
         [flat_bar, flat_bar\<lparr>bar_time := ''2024.01.02 10:05:00'', bar_c := 2001\<rparr>])
       = [flat_bar, flat_bar\<lparr>bar_time := ''2024.01.02 10:05:00'', bar_c := 2002\<rparr>,
          flat_bar\<lparr>bar_time := ''2024.01.02 10:10:00'', bar_c := 2004\<rparr>]
   \<and> at_time ''2024.01.02 10:05:00''
        (m5_cache (merge_bars_into_cache
           [flat_bar\<lparr>bar_time := ''2024.01.02 10:05:00'', bar_c := 2002\<rparr>,
            flat_bar\<lparr>bar_time := ''2024.01.02 10:10:00'', bar_c := 2003\<rparr>,
            flat_bar\<lparr>bar_time := ''2024.01.02 10:10:00'', bar_c := 2004\<rparr>]
           (merge_bars_into_cache
              [flat_bar\<lparr>bar_time := ''2024.01.02 10:05:00'', bar_c := 2001\<rparr>]
              (initial_m5\<lparr>m5_cache := [flat_bar]\<rparr>))))
       = [flat_bar\<lparr>bar_time := ''2024.01.02 10:05:00'', bar_c := 2002\<rparr>]
   \<and> m5_cache (merge_bars_into_cache
           [flat_bar\<lparr>bar_time := ''2024.01.02 10:05:00'', bar_c := 2002\<rparr>,
            flat_bar\<lparr>bar_time := ''2024.01.02 10:10:00'', bar_c := 2003\<rparr>,
            flat_bar\<lparr>bar_time := ''2024.01.02 10:10:00'', bar_c := 2004\<rparr>]
           (merge_bars_into_cache
              [flat_bar\<lparr>bar_time := ''2024.01.02 10:05:00'', bar_c := 2001\<rparr>]
              (initial_m5\<lparr>m5_cache := [flat_bar]\<rparr>)))
       = [flat_bar, flat_bar\<lparr>bar_time := ''2024.01.02 10:05:00'', bar_c := 2002\<rparr>,
          flat_bar\<lparr>bar_time := ''2024.01.02 10:10:00'', bar_c := 2004\<rparr>]"
proof -
  let ?s = "initial_m5\<lparr>m5_cache := [flat_bar]\<rparr>"
  let ?b1 = "flat_bar\<lparr>bar_time := ''2024.01.02 10:05:00'', bar_c := 2001\<rparr>"
  let ?b2 = "flat_bar\<lparr>bar_time := ''2024.01.02 10:05:00'', bar_c := 2002\<rparr>"
  let ?b3 = "flat_bar\<lparr>bar_time := ''2024.01.02 10:10:00'', bar_c := 2003\<rparr>"
  let ?b4 = "flat_bar\<lparr>bar_time := ''2024.01.02 10:10:00'', bar_c := 2004\<rparr>"
  let ?s1 = "merge_bars_into_cache [?b1] ?s"
  let ?t = "''2024.01.02 10:05:00''"
  have inv: "cache_invariant (m5_cache ?s)" by (simp add: cache_invariant_def)
  have eligible: "filter mergeable [?b2, ?b3, ?b4] = [?b2, ?b3, ?b4]"
    by (simp add: mergeable_def flat_bar_def)
  have first: "m5_cache ?s1 = [flat_bar, ?b1]"
    by (simp add: merge_bars_into_cache_def merge_loop_def merge_one_def Let_def initial_m5_def
        flat_bar_def last_n_def M5_CACHE_MAX_BARS_def)
  have merged: "mv_cache (merge_loop [?b2, ?b3, ?b4] [flat_bar, ?b1]) = [flat_bar, ?b2, ?b4]"
    by (simp add: merge_loop_def merge_one_def flat_bar_def)
  have sorted: "last_n 2000 (sort_key bar_time [flat_bar, ?b2, ?b4]) = [flat_bar, ?b2, ?b4]"
    by (simp add: last_n_def flat_bar_def)
  have newer: "newer_than ?t [flat_bar, ?b2, ?b4] < 2000"
    by (simp add: newer_than_def)
  have mem: "?t \<in> set (map bar_time (filter mergeable [?b2, ?b3, ?b4]))"
    unfolding eligible by simp
  from merge_overwrites_or_appends [OF inv, of "[?b1]" "[?b2, ?b3, ?b4]"]
  have all: "\<forall>t \<in> set (map bar_time (filter mergeable [?b2, ?b3, ?b4])).
      at_time t (m5_cache (merge_bars_into_cache [?b2, ?b3, ?b4] ?s1))
        = (if newer_than t (mv_cache (merge_loop [?b2, ?b3, ?b4] (m5_cache ?s1))) < 2000
           then [last (at_time t (filter mergeable [?b2, ?b3, ?b4]))] else [])"
    and res: "m5_cache (merge_bars_into_cache [?b2, ?b3, ?b4] ?s1)
        = last_n 2000 (sort_key bar_time (mv_cache (merge_loop [?b2, ?b3, ?b4] (m5_cache ?s1))))"
    unfolding Let_def by blast+
  from bspec [OF all mem]
  have one: "at_time ?t (m5_cache (merge_bars_into_cache [?b2, ?b3, ?b4] ?s1)) = [?b2]"
    unfolding first merged eligible using newer by (simp add: at_time_def)
  have result: "m5_cache (merge_bars_into_cache [?b2, ?b3, ?b4] ?s1) = [flat_bar, ?b2, ?b4]"
    unfolding res first merged sorted ..
  show ?thesis
    using inv first mem merged one result by blast
qed

subsection \<open>C3: the invariant of the bar cache\<close>

lemma newest_bar_evicts_oldest:
  "m5_cache (merge_bars_into_cache [numbered_bar 2001 1] full_m5)
     = tl full_cache @ [numbered_bar 2001 1]"
proof -
  have times: "bar_time (numbered_bar 2001 1) \<notin> set (map bar_time full_cache)"
  proof
    assume "bar_time (numbered_bar 2001 1) \<in> set (map bar_time full_cache)"
    then have "stamp 2001 \<in> set (map stamp [1 ..< 2001])"
      by (simp only: full_cache_times) (simp add: numbered_bar_def)
    then obtain n where "n < 2001" "stamp n = stamp 2001" by auto
    with stamp_less [of n 2001] show False by simp
  qed
  have ns: "\<not> bar_synthetic (numbered_bar 2001 1)" "bar_time (numbered_bar 2001 1) \<noteq> []"
    by (simp_all add: numbered_bar_def stamp_def)
  have loop: "mv_cache (merge_loop [numbered_bar 2001 1] full_cache) = full_cache @ [numbered_bar 2001 1]"
    "added (merge_loop [numbered_bar 2001 1] full_cache) = 1"
    by (simp_all only: merge_loop_append [OF ns times] merge_vars.simps)
  have "sorted_wrt (\<lambda>i j. stamp i \<le> stamp j) [1 ..< 2002]"
    by (rule sorted_wrt_mono_rel [OF _ sorted_wrt_upt]) (simp add: stamp_less less_imp_le)
  then have "sorted (map stamp [1 ..< 2002])" by (simp only: sorted_map)
  moreover have "[1 ..< 2002] = [1 ..< 2001] @ [2001]"
    using upt_Suc_append [of 1 2001] by simp
  ultimately have "sorted (map stamp [1 ..< 2001] @ [stamp 2001])" by simp
  moreover have "bar_time (numbered_bar 2001 1) = stamp 2001" by (simp add: numbered_bar_def)
  ultimately have "sorted (map bar_time (full_cache @ [numbered_bar 2001 1]))"
    by (simp only: map_append full_cache_times list.map)
  then have srt: "sort_key bar_time (full_cache @ [numbered_bar 2001 1])
      = full_cache @ [numbered_bar 2001 1]"
    by (rule sort_key_id_if_sorted)
  have len: "length full_cache = 2000" by (simp add: full_cache_def)
  then obtain b rest where c: "full_cache = b # rest" by (cases full_cache) auto
  have cut: "last_n 2000 (full_cache @ [numbered_bar 2001 1]) = tl full_cache @ [numbered_bar 2001 1]"
    using len unfolding c by (simp add: last_n_def)
  have nonempty: "[numbered_bar 2001 1] \<noteq> []" by simp
  have "m5_cache (merge_bars_into_cache [numbered_bar 2001 1] full_m5)
      = last_n 2000 (sort_key bar_time (full_cache @ [numbered_bar 2001 1]))"
    unfolding merge_bars_into_cache_def Let_def
    by (simp only: nonempty if_False) (simp add: full_m5_def loop M5_CACHE_MAX_BARS_def)
  then show ?thesis by (simp only: srt cut)
qed

text \<open>
  Claim C3. When the cache satisfies its invariant (at most 2000 bars, pairwise distinct
  timestamps, ascending order), it satisfies it again after \<^verbatim>\<open>merge_bars_into_cache\<close>, for
  every batch. Of the bars the merge loop collected, exactly the excess over 2000 is
  dropped, and every dropped bar has a timestamp smaller than every bar that is kept: the
  oldest go first.
\<close>

theorem merge_keeps_cache_invariant:
  assumes "cache_invariant (m5_cache s)"
  shows "cache_invariant (m5_cache (merge_bars_into_cache new_bars s))
    \<and> (\<forall>x \<in> set (mv_cache (merge_loop new_bars (m5_cache s))).
          x \<notin> set (m5_cache (merge_bars_into_cache new_bars s)) \<longrightarrow>
          (\<forall>y \<in> set (m5_cache (merge_bars_into_cache new_bars s)). bar_time x < bar_time y))
    \<and> length (m5_cache (merge_bars_into_cache new_bars s))
        = min (length (mv_cache (merge_loop new_bars (m5_cache s)))) 2000"
  using assms by (rule merge_invariant_and_eviction)

theorem merge_keeps_cache_invariant_witness:
  "cache_invariant (m5_cache full_m5)
   \<and> length (m5_cache full_m5) = 2000
   \<and> m5_cache (merge_bars_into_cache [numbered_bar 2001 1] full_m5)
       = tl full_cache @ [numbered_bar 2001 1]
   \<and> cache_invariant (tl full_cache @ [numbered_bar 2001 1])
   \<and> length (tl full_cache @ [numbered_bar 2001 1]) = 2000"
proof -
  have inv: "cache_invariant (m5_cache full_m5)"
    by (simp add: full_m5_def full_cache_invariant)
  have len: "length (m5_cache full_m5) = 2000" by (simp add: full_m5_def full_cache_def)
  have len': "length (tl full_cache @ [numbered_bar 2001 1]) = 2000"
    by (simp add: full_cache_def)
  have "cache_invariant (m5_cache (merge_bars_into_cache [numbered_bar 2001 1] full_m5))"
    using merge_keeps_cache_invariant [OF inv, of "[numbered_bar 2001 1]"] by (rule conjunct1)
  then have "cache_invariant (tl full_cache @ [numbered_bar 2001 1])"
    by (simp only: newest_bar_evicts_oldest)
  then show ?thesis
    by (intro conjI inv len newest_bar_evicts_oldest len')
qed

subsection \<open>C4: synthetic bars stay out of the cache and of the file\<close>

lemma merge_one_origin:
  "set (mv_cache (merge_one mv bar))
     \<subseteq> set (mv_cache mv) \<union> (if bar_synthetic bar then {} else {bar})"
proof -
  obtain c' u where u: "update_existing bar (mv_cache mv) = (c', u)" by force
  then have "set c' \<subseteq> insert bar (set (mv_cache mv))"
    using update_existing_set [of bar "mv_cache mv"] by simp
  then show ?thesis using u by (auto simp: merge_one_def)
qed

lemma foldl_merge_one_origin:
  "set (mv_cache (foldl merge_one mv bars))
     \<subseteq> set (mv_cache mv) \<union> {b \<in> set bars. \<not> bar_synthetic b}"
proof (induction bars arbitrary: mv)
  case Nil
  then show ?case by simp
next
  case (Cons bar bars)
  have "set (mv_cache (foldl merge_one (merge_one mv bar) bars))
     \<subseteq> set (mv_cache (merge_one mv bar)) \<union> {b \<in> set bars. \<not> bar_synthetic b}"
    by (rule Cons.IH)
  with merge_one_origin [of mv bar] show ?case
    by (auto split: if_splits)
qed

lemma merge_origin:
  "set (m5_cache (merge_bars_into_cache new_bars s))
     \<subseteq> set (m5_cache s) \<union> {b \<in> set new_bars. \<not> bar_synthetic b}"
proof -
  have loop: "set (mv_cache (merge_loop new_bars (m5_cache s)))
     \<subseteq> set (m5_cache s) \<union> {b \<in> set new_bars. \<not> bar_synthetic b}"
    using foldl_merge_one_origin
      [of "\<lparr>mv_cache = m5_cache s, existing_times = set (map bar_time (m5_cache s)),
            added = 0, updated = 0\<rparr>" new_bars]
    by (simp add: merge_loop_def)
  have "set (last_n M5_CACHE_MAX_BARS (sort_key bar_time (mv_cache (merge_loop new_bars (m5_cache s)))))
     \<subseteq> set (mv_cache (merge_loop new_bars (m5_cache s)))"
    using set_drop_subset [of _ "sort_key bar_time (mv_cache (merge_loop new_bars (m5_cache s)))"]
    by (simp add: last_n_def)
  with loop show ?thesis
    by (auto simp: merge_bars_into_cache_def Let_def)
qed

lemma merge_no_synthetic: "no_synthetic s \<Longrightarrow> no_synthetic (merge_bars_into_cache new_bars s)"
proof -
  assume a: "no_synthetic s"
  have unchanged: "m5_cache_file (merge_bars_into_cache new_bars s) = m5_cache_file s"
    by (simp add: merge_bars_into_cache_def Let_def)
  have "\<forall>b \<in> set (m5_cache (merge_bars_into_cache new_bars s)). \<not> bar_synthetic b"
    using merge_origin [of new_bars s] a by (auto simp: no_synthetic_def list_all_iff)
  then show ?thesis using a by (simp add: no_synthetic_def list_all_iff unchanged)
qed

lemma save_no_synthetic: "no_synthetic s \<Longrightarrow> no_synthetic (save_m5_cache io now s)"
  by (cases io) (simp_all add: no_synthetic_def save_m5_cache_def)

lemma restart_no_synthetic:
  "no_synthetic s \<Longrightarrow>
   no_synthetic (load_m5_cache cutoff (s\<lparr>m5_cache := [], m5_cache_dirty := False, m5_last_save := 0\<rparr>))"
  by (cases "m5_cache_file s") (simp_all add: no_synthetic_def load_m5_cache_def list_all_iff)

lemma m5_step_no_synthetic: "no_synthetic s \<Longrightarrow> no_synthetic (m5_step s e)"
  by (cases e) (simp_all add: merge_no_synthetic save_no_synthetic restart_no_synthetic)

lemma foldl_m5_step_no_synthetic:
  "no_synthetic s \<Longrightarrow> no_synthetic (foldl m5_step s events)"
  by (induction events arbitrary: s) (simp_all add: m5_step_no_synthetic)

text \<open>
  Claim C4. Every bar in the cache after \<^verbatim>\<open>merge_bars_into_cache\<close> was in the cache before
  or is a bar of the batch whose synthetic flag is not set: the merge inserts no synthetic
  bar. Hence, from every state whose cache and file hold no synthetic bar (the first
  start, without a file, is one), and for every sequence of merges, saves and restarts,
  neither the cache nor any snapshot that \<^verbatim>\<open>save_m5_cache\<close> wrote holds a synthetic bar.
\<close>

theorem synthetic_bars_never_cached:
  "(\<forall>b \<in> set (m5_cache (merge_bars_into_cache new_bars s)).
       b \<in> set (m5_cache s) \<or> (b \<in> set new_bars \<and> \<not> bar_synthetic b))
   \<and> (no_synthetic s0 \<longrightarrow>
        (\<forall>b \<in> set (m5_cache (m5_run s0 events)). \<not> bar_synthetic b)
        \<and> (\<forall>snapshot. m5_cache_file (m5_run s0 events) = Some snapshot \<longrightarrow>
              (\<forall>b \<in> set snapshot. \<not> bar_synthetic b)))"
proof -
  have 1: "\<forall>b \<in> set (m5_cache (merge_bars_into_cache new_bars s)).
       b \<in> set (m5_cache s) \<or> (b \<in> set new_bars \<and> \<not> bar_synthetic b)"
    using merge_origin [of new_bars s] by blast
  have 2: "(\<forall>b \<in> set (m5_cache (m5_run s0 events)). \<not> bar_synthetic b)
      \<and> (\<forall>snapshot. m5_cache_file (m5_run s0 events) = Some snapshot \<longrightarrow>
            (\<forall>b \<in> set snapshot. \<not> bar_synthetic b))"
    if "no_synthetic s0"
  proof -
    have "no_synthetic (m5_run s0 events)"
      unfolding m5_run_def using that by (rule foldl_m5_step_no_synthetic)
    then show ?thesis
      by (simp add: no_synthetic_def list_all_iff split: option.splits)
  qed
  from 1 2 show ?thesis by (intro conjI impI) blast+
qed

theorem synthetic_bars_never_cached_witness:
  "no_synthetic initial_m5
   \<and> m5_cache_file (m5_run initial_m5
      [Merge [flat_bar, flat_bar\<lparr>bar_time := ''2024.01.02 09:55:00'', bar_synthetic := True\<rparr>],
       Save Io_ok 1700000000]) = Some [flat_bar]
   \<and> \<not> bar_synthetic flat_bar"
proof -
  let ?events = "[Merge [flat_bar, flat_bar\<lparr>bar_time := ''2024.01.02 09:55:00'', bar_synthetic := True\<rparr>],
       Save Io_ok 1700000000]"
  have start: "no_synthetic initial_m5" by (simp add: no_synthetic_def initial_m5_def)
  have run: "m5_cache_file (m5_run initial_m5 ?events) = Some [flat_bar]"
    by (simp add: m5_run_def initial_m5_def merge_bars_into_cache_def merge_loop_def
        merge_one_def save_m5_cache_def flat_bar_def last_n_def M5_CACHE_MAX_BARS_def)
  from synthetic_bars_never_cached [of "[]" initial_m5 initial_m5 ?events] start run
  show ?thesis by simp
qed

subsection \<open>C5: the relative strength index on short and on monotone series\<close>

lemma diffs_Cons2: "diffs (x # y # zs) = (y - x) # diffs (y # zs)"
  by (simp add: diffs_def)

lemma length_diffs: "length (diffs xs) = length xs - 1"
  by (simp add: diffs_def)

lemma diffs_increasing: "sorted_wrt (<) xs \<Longrightarrow> \<forall>d \<in> set (diffs xs). 0 < d"
proof (induction xs rule: induct_list012)
  case 1
  then show ?case by (simp add: diffs_def)
next
  case (2 x)
  then show ?case by (simp add: diffs_def)
next
  case (3 x y zs)
  then show ?case by (simp add: diffs_Cons2)
qed

lemma diffs_decreasing: "sorted_wrt (\<lambda>a b. a > b) xs \<Longrightarrow> \<forall>d \<in> set (diffs xs). d < 0"
proof (induction xs rule: induct_list012)
  case 1
  then show ?case by (simp add: diffs_def)
next
  case (2 x)
  then show ?case by (simp add: diffs_def)
next
  case (3 x y zs)
  then show ?case by (simp add: diffs_Cons2)
qed

lemma sum_list_zero: "\<forall>x \<in> set xs. x = (0::real) \<Longrightarrow> sum_list xs = 0"
  by (induction xs) auto

lemma sum_list_positive: "xs \<noteq> [] \<Longrightarrow> \<forall>x \<in> set xs. (0::real) < x \<Longrightarrow> 0 < sum_list xs"
  by (induction xs) (auto intro: add_pos_nonneg sum_list_nonneg less_imp_le)

lemma rsi_short: "length closes < 15 \<Longrightarrow> calc_rsi closes 14 = 50"
  by (simp add: calc_rsi_def)

lemma rsi_increasing:
  assumes "length closes > 15" "sorted_wrt (<) closes"
  shows "calc_rsi closes 14 = 100"
proof -
  have "\<forall>x \<in> set (map (\<lambda>diff. max 0 (- diff)) (diffs closes)). x = 0"
    using diffs_increasing [OF assms(2)] by auto
  then have "\<forall>x \<in> set (last_n 14 (map (\<lambda>diff. max 0 (- diff)) (diffs closes))). x = 0"
    by (rule last_n_ball)
  then have z: "sum_list (last_n 14 (map (\<lambda>diff. max 0 (- diff)) (diffs closes))) = 0"
    by (rule sum_list_zero)
  have len: "\<not> length closes < 14 + 1" using assms(1) by linarith
  show ?thesis
    by (simp only: calc_rsi_def Let_def len if_False z div_0, simp)
qed

lemma rsi_decreasing:
  assumes "length closes > 15" "sorted_wrt (\<lambda>a b. a > b) closes"
  shows "calc_rsi closes 14 = 0"
proof -
  let ?gains = "map (\<lambda>diff. max 0 diff) (diffs closes)"
  let ?losses = "map (\<lambda>diff. max 0 (- diff)) (diffs closes)"
  have neg: "\<forall>d \<in> set (diffs closes). d < 0" by (rule diffs_decreasing [OF assms(2)])
  then have "\<forall>x \<in> set ?gains. x = 0" by auto
  then have "\<forall>x \<in> set (last_n 14 ?gains). x = 0" by (rule last_n_ball)
  then have gain: "sum_list (last_n 14 ?gains) = 0" by (rule sum_list_zero)
  from neg have "\<forall>x \<in> set ?losses. 0 < x" by auto
  then have pos: "\<forall>x \<in> set (last_n 14 ?losses). 0 < x" by (rule last_n_ball)
  have "length (last_n 14 ?losses) = 14"
    using assms(1) by (simp add: last_n_def length_diffs)
  then have "last_n 14 ?losses \<noteq> []" by auto
  then have loss: "0 < sum_list (last_n 14 ?losses)" using pos by (rule sum_list_positive)
  have len: "\<not> length closes < 14 + 1" using assms(1) by linarith
  have nz: "sum_list (last_n 14 ?losses) / real 14 \<noteq> 0" using loss by simp
  have "calc_rsi closes 14 = max 0 (min 100 (100 - 100 / (1 + 0 / real 14 / (sum_list (last_n 14 ?losses) / real 14))))"
    using nz by (simp only: calc_rsi_def Let_def len if_False gain)
  then show ?thesis by simp
qed

text \<open>
  Claim C5. \<^verbatim>\<open>calc_rsi\<close> with its default period of 14 returns 50 on every series of fewer
  than 15 closes, 100 on every strictly increasing series of more than 15 closes, and 0 on
  every strictly decreasing series of more than 15 closes.
\<close>

theorem calc_rsi_short_and_monotone:
  "(length short < 15 \<longrightarrow> calc_rsi short 14 = 50)
   \<and> (length up > 15 \<and> sorted_wrt (<) up \<longrightarrow> calc_rsi up 14 = 100)
   \<and> (length down > 15 \<and> sorted_wrt (\<lambda>a b. a > b) down \<longrightarrow> calc_rsi down 14 = 0)"
  using rsi_short rsi_increasing rsi_decreasing by blast

theorem calc_rsi_short_and_monotone_witness:
  "length [2000, 2001, 1999 :: real] < 15
   \<and> calc_rsi [2000, 2001, 1999] 14 = 50
   \<and> length [1, 2, 3, 4, 5, 6, 7, 8, 9, 10, 11, 12, 13, 14, 15, 16, 17 :: real] > 15
   \<and> sorted_wrt (<) [1, 2, 3, 4, 5, 6, 7, 8, 9, 10, 11, 12, 13, 14, 15, 16, 17 :: real]
   \<and> calc_rsi [1, 2, 3, 4, 5, 6, 7, 8, 9, 10, 11, 12, 13, 14, 15, 16, 17] 14 = 100
   \<and> length [17, 16, 15, 14, 13, 12, 11, 10, 9, 8, 7, 6, 5, 4, 3, 2, 1 :: real] > 15
   \<and> sorted_wrt (\<lambda>a b. a > b) [17, 16, 15, 14, 13, 12, 11, 10, 9, 8, 7, 6, 5, 4, 3, 2, 1 :: real]
   \<and> calc_rsi [17, 16, 15, 14, 13, 12, 11, 10, 9, 8, 7, 6, 5, 4, 3, 2, 1] 14 = 0"
proof -
  have a: "length [2000, 2001, 1999 :: real] < 15" by simp
  have b: "length [1, 2, 3, 4, 5, 6, 7, 8, 9, 10, 11, 12, 13, 14, 15, 16, 17 :: real] > 15
    \<and> sorted_wrt (<) [1, 2, 3, 4, 5, 6, 7, 8, 9, 10, 11, 12, 13, 14, 15, 16, 17 :: real]"
    by simp
  have c: "length [17, 16, 15, 14, 13, 12, 11, 10, 9, 8, 7, 6, 5, 4, 3, 2, 1 :: real] > 15
    \<and> sorted_wrt (\<lambda>a b. a > b) [17, 16, 15, 14, 13, 12, 11, 10, 9, 8, 7, 6, 5, 4, 3, 2, 1 :: real]"
    by simp
  from calc_rsi_short_and_monotone
    [of "[2000, 2001, 1999]" "[1, 2, 3, 4, 5, 6, 7, 8, 9, 10, 11, 12, 13, 14, 15, 16, 17]"
        "[17, 16, 15, 14, 13, 12, 11, 10, 9, 8, 7, 6, 5, 4, 3, 2, 1]"] a b c
  show ?thesis by blast
qed

subsection \<open>C6: fewer than 50 bars\<close>

text \<open>
  Claim C6. Called with fewer than 50 bars, \<^verbatim>\<open>generate_signal\<close> returns the signal HOLD
  with confidence 0 and the reason \<^verbatim>\<open>Insufficient data\<close>, and the state of the scorer and
  the validator is the one it was called in: history, pending queue, both sets of
  counters, the last-signal memory and the backtest file are untouched.
\<close>

theorem generate_signal_insufficient_data:
  assumes "length bars < 50"
  shows "sr_signal (fst (generate_signal env bars bid s)) = ''HOLD''
    \<and> sr_confidence (fst (generate_signal env bars bid s)) = 0
    \<and> sr_reason (fst (generate_signal env bars bid s)) = Some ''Insufficient data''
    \<and> snd (generate_signal env bars bid s) = s
    \<and> signal_history (snd (generate_signal env bars bid s)) = signal_history s
    \<and> backtest_pending (snd (generate_signal env bars bid s)) = backtest_pending s
    \<and> signal_stats (snd (generate_signal env bars bid s)) = signal_stats s
    \<and> backtest_results (snd (generate_signal env bars bid s)) = backtest_results s
    \<and> last_signal (snd (generate_signal env bars bid s)) = last_signal s
    \<and> backtest_file (snd (generate_signal env bars bid s)) = backtest_file s"
  using assms by (simp add: generate_signal_def)

theorem generate_signal_insufficient_data_witness:
  "length (replicate 49 flat_bar) < 50
   \<and> sr_signal (fst (generate_signal calm_environment (replicate 49 flat_bar) 2000 fresh_scorer))
       = ''HOLD''
   \<and> sr_confidence (fst (generate_signal calm_environment (replicate 49 flat_bar) 2000 fresh_scorer))
       = 0
   \<and> snd (generate_signal calm_environment (replicate 49 flat_bar) 2000 fresh_scorer)
       = fresh_scorer"
proof -
  have short: "length (replicate 49 flat_bar) < 50" by simp
  from generate_signal_insufficient_data [OF short, of calm_environment 2000 fresh_scorer] short
  show ?thesis by simp
qed

subsection \<open>C7: the bars built from the price history\<close>

lemma add_price_keys:
  "map fst (add_price k p bd) = (if k \<in> set (map fst bd) then map fst bd else map fst bd @ [k])"
  by (induction bd) force+

lemma group_keys_step:
  assumes "distinct (map fst bd)" "\<forall>k \<in> set (map fst bd). 300000000 dvd k"
  shows "distinct (map fst (add_price (five_minute_start t) p bd))
    \<and> (\<forall>k \<in> set (map fst (add_price (five_minute_start t) p bd)). 300000000 dvd k)"
proof -
  have "(300000000::int) dvd five_minute_start t"
    unfolding five_minute_start_def by (rule dvd_minus_mod)
  then show ?thesis using assms by (simp add: add_price_keys)
qed

lemma group_keys_foldl:
  assumes "distinct (map fst bd)" "\<forall>k \<in> set (map fst bd). 300000000 dvd k"
  shows "distinct (map fst (foldl (\<lambda>bar_data p.
            add_price (five_minute_start (pp_time p)) (pp_price p) bar_data) bd ph))
    \<and> (\<forall>k \<in> set (map fst (foldl (\<lambda>bar_data p.
            add_price (five_minute_start (pp_time p)) (pp_price p) bar_data) bd ph)).
          300000000 dvd k)"
  using assms
proof (induction ph arbitrary: bd)
  case Nil
  then show ?case by simp
next
  case (Cons x ph)
  from group_keys_step [OF Cons.prems, of "pp_time x" "pp_price x"]
  show ?case using Cons.IH [of "add_price (five_minute_start (pp_time x)) (pp_price x) bd"]
    by simp
qed

lemma group_prices_keys:
  "distinct (map fst (group_prices ph)) \<and> (\<forall>k \<in> set (map fst (group_prices ph)). 300000000 dvd k)"
  unfolding group_prices_def by (rule group_keys_foldl) simp_all

lemma strftime_strict:
  "300000000 dvd a \<Longrightarrow> 300000000 dvd b \<Longrightarrow> a < b \<Longrightarrow> strftime a < strftime b"
  by (auto simp: strftime_def elim!: dvdE)

lemma ohlc_bar_fields:
  "bar_time (ohlc_bar kp) = strftime (fst kp)" "\<not> bar_synthetic (ohlc_bar kp)"
  by (simp_all add: ohlc_bar_def split_beta)

lemma real_bars_real: "list_all (\<lambda>b. \<not> bar_synthetic b) (real_bars ph)"
  by (auto simp: real_bars_def list_all_iff ohlc_bar_fields)

lemma real_bars_ascending: "sorted_wrt (<) (map bar_time (real_bars ph))"
proof -
  let ?groups = "filter (\<lambda>kp. snd kp \<noteq> []) (sort_key fst (group_prices ph))"
  have "sorted (map fst (sort_key fst (group_prices ph)))" by simp
  then have s: "sorted (map fst ?groups)" by (rule sorted_filter)
  have "distinct (map fst (sort_key fst (group_prices ph)))"
    using group_prices_keys [of ph] by (simp add: distinct_map_sort_key)
  then have d: "distinct (map fst ?groups)" by (rule distinct_map_filter)
  from s d have "sorted_wrt (<) (map fst ?groups)" by (simp add: strict_sorted_iff)
  then have strict: "sorted_wrt (\<lambda>x y. fst x < fst y) ?groups" by (simp add: sorted_wrt_map)
  have dv: "300000000 dvd fst kp" if "kp \<in> set ?groups" for kp
    using group_prices_keys [of ph] that by auto
  have "sorted_wrt (\<lambda>x y. strftime (fst x) < strftime (fst y)) ?groups"
  proof (rule sorted_wrt_mono_rel [OF _ strict])
    fix x y
    assume "x \<in> set ?groups" "y \<in> set ?groups" "fst x < fst y"
    then show "strftime (fst x) < strftime (fst y)"
      by (intro strftime_strict dv)
  qed
  then have "sorted_wrt (<) (map bar_time (map ohlc_bar ?groups))"
    by (simp add: sorted_wrt_map ohlc_bar_fields)
  then show ?thesis by (simp add: real_bars_def)
qed

lemma backfill_loop:
  assumes "length acc = l + a" "a \<le> b"
  shows "foldl (\<lambda>bars i. synthetic_bar now cp (60 - int (length bars) - int i) # bars) acc [a ..< b]
    = map (\<lambda>i. synthetic_bar now cp (60 - int l - 2 * int i)) (rev [a ..< b]) @ acc"
  using assms(2)
proof (induction b)
  case 0
  then show ?case by simp
next
  case (Suc b)
  show ?case
  proof (cases "a = Suc b")
    case True
    then show ?thesis by simp
  next
    case False
    with Suc.prems have ab: "a \<le> b" by simp
    have "60 - int (b - a + length acc) - int b = 60 - int l - 2 * int b"
      using assms(1) ab by simp
    with Suc.IH [OF ab] ab show ?thesis by simp
  qed
qed

lemma backfill_structure:
  "backfill now cp bars
    = map (\<lambda>i. synthetic_bar now cp (60 - int (length bars) - 2 * int i))
        (rev [0 ..< 60 - length bars]) @ bars"
proof (cases "length bars < 60")
  case True
  then show ?thesis
    using backfill_loop [of bars "length bars" 0 "60 - length bars" now cp]
    by (simp add: backfill_def)
next
  case False
  then show ?thesis by (simp add: backfill_def)
qed

lemma synthetic_bar_fields:
  "bar_synthetic (synthetic_bar now cp idx)"
  "bar_time (synthetic_bar now cp idx) = strftime (now - idx * 5 * 60000000)"
  by (simp_all add: synthetic_bar_def Let_def)

lemma include_current_flags:
  "map bar_synthetic (include_current cp bars) = map bar_synthetic bars"
proof (cases "bars = []")
  case True
  then show ?thesis by (simp add: include_current_def)
next
  case False
  then have "map bar_synthetic bars = map bar_synthetic (butlast bars) @ [bar_synthetic (last bars)]"
    by (metis append_butlast_last_id list.simps(8,9) map_append)
  then show ?thesis using False by (simp add: include_current_def Let_def)
qed

lemma include_current_times:
  "map bar_time (include_current cp bars) = map bar_time bars"
proof (cases "bars = []")
  case True
  then show ?thesis by (simp add: include_current_def)
next
  case False
  then have "map bar_time bars = map bar_time (butlast bars) @ [bar_time (last bars)]"
    by (metis append_butlast_last_id list.simps(8,9) map_append)
  then show ?thesis using False by (simp add: include_current_def Let_def)
qed

lemma same_flags_all_real:
  "map bar_synthetic xs = map bar_synthetic ys \<Longrightarrow>
   list_all (\<lambda>b. \<not> bar_synthetic b) xs \<Longrightarrow> list_all (\<lambda>b. \<not> bar_synthetic b) ys"
proof (induction xs arbitrary: ys)
  case Nil
  then show ?case by simp
next
  case (Cons x xs)
  then show ?case by (cases ys) auto
qed

lemma same_flags_all_synthetic:
  "map bar_synthetic xs = map bar_synthetic ys \<Longrightarrow>
   list_all bar_synthetic xs \<Longrightarrow> list_all bar_synthetic ys"
proof (induction xs arbitrary: ys)
  case Nil
  then show ?case by simp
next
  case (Cons x xs)
  then show ?case by (cases ys) auto
qed

lemma include_current_append:
  "reals \<noteq> [] \<Longrightarrow> include_current cp (synth @ reals) = synth @ include_current cp reals"
  by (simp add: include_current_def Let_def butlast_append)

lemma synthetic_then_real_append:
  assumes "list_all bar_synthetic synth" "list_all (\<lambda>b. \<not> bar_synthetic b) reals"
    "sorted_wrt (<) (map bar_time reals)"
  shows "synthetic_then_real (synth @ reals)"
proof -
  have "dropWhile bar_synthetic (synth @ reals) = dropWhile bar_synthetic reals"
    using assms(1) by (simp add: list_all_iff)
  moreover have "dropWhile bar_synthetic reals = reals"
    using assms(2) by (cases reals) simp_all
  ultimately show ?thesis using assms(2,3)
    by (simp add: synthetic_then_real_def after_synthetic_def)
qed

lemma synthetic_then_real_drop:
  "synthetic_then_real xs \<Longrightarrow> synthetic_then_real (drop k xs)"
proof (induction xs arbitrary: k)
  case Nil
  then show ?case by simp
next
  case (Cons x xs)
  show ?case
  proof (cases k)
    case 0
    with Cons.prems show ?thesis by simp
  next
    case (Suc j)
    have "synthetic_then_real xs"
    proof (cases "bar_synthetic x")
      case True
      with Cons.prems show ?thesis
        by (simp add: synthetic_then_real_def after_synthetic_def)
    next
      case False
      with Cons.prems have "list_all (\<lambda>b. \<not> bar_synthetic b) xs"
        "sorted_wrt (<) (map bar_time xs)"
        by (simp_all add: synthetic_then_real_def after_synthetic_def)
      then show ?thesis using synthetic_then_real_append [of "[]" xs] by simp
    qed
    then show ?thesis using Cons.IH Suc by simp
  qed
qed

lemma built_shape:
  "synthetic_then_real (include_current cp (backfill now cp (real_bars ph)))"
proof -
  let ?synth = "map (\<lambda>i. synthetic_bar now cp (60 - int (length (real_bars ph)) - 2 * int i))
      (rev [0 ..< 60 - length (real_bars ph)])"
  have built: "backfill now cp (real_bars ph) = ?synth @ real_bars ph"
    by (rule backfill_structure)
  have synth: "list_all bar_synthetic ?synth"
    by (simp add: list_all_iff synthetic_bar_fields)
  show ?thesis
  proof (cases "real_bars ph = []")
    case True
    have flags: "map bar_synthetic ?synth = map bar_synthetic (include_current cp ?synth)"
      by (rule include_current_flags [symmetric])
    have "list_all bar_synthetic (include_current cp ?synth)"
      by (rule same_flags_all_synthetic [OF flags synth])
    then have "synthetic_then_real (include_current cp ?synth @ [])"
      by (rule synthetic_then_real_append) simp_all
    then have "synthetic_then_real (include_current cp (?synth @ real_bars ph))"
      unfolding True by (simp only: append_Nil2)
    then show ?thesis unfolding built .
  next
    case False
    have flags: "map bar_synthetic (real_bars ph) = map bar_synthetic (include_current cp (real_bars ph))"
      by (rule include_current_flags [symmetric])
    have reals: "list_all (\<lambda>b. \<not> bar_synthetic b) (include_current cp (real_bars ph))"
      by (rule same_flags_all_real [OF flags real_bars_real])
    have asc: "sorted_wrt (<) (map bar_time (include_current cp (real_bars ph)))"
      unfolding include_current_times by (rule real_bars_ascending)
    have "synthetic_then_real (?synth @ include_current cp (real_bars ph))"
      by (rule synthetic_then_real_append [OF synth reals asc])
    then show ?thesis unfolding built include_current_append [OF False] .
  qed
qed

lemma length_include_current: "length (include_current cp bars) = length bars"
  using include_current_flags [of cp bars] by (metis length_map)

lemma length_backfill: "length (backfill now cp bars) = max 60 (length bars)"
  unfolding backfill_structure by simp

lemma ascending_take_drop:
  assumes "sorted_wrt (<) (map f xs)" "x \<in> set (take k xs)" "y \<in> set (drop k xs)"
  shows "f x < f y"
proof -
  have "map f xs = map f (take k xs) @ map f (drop k xs)" by (simp flip: map_append)
  with assms(1) have "sorted_wrt (<) (map f (take k xs) @ map f (drop k xs))" by simp
  with assms(2,3) show ?thesis by (auto simp: sorted_wrt_append)
qed

lemma example_real_bars:
  "real_bars (ten_ticks @ [\<lparr>pp_time = 100000000000, pp_price = 2000\<rparr>])
     = [\<lparr>bar_time = 99900, bar_o = 2000, bar_h = 2000, bar_l = 2000, bar_c = 2000, bar_v = 1100,
         bar_synthetic = False\<rparr>]"
  by (simp add: real_bars_def ten_ticks_def group_prices_def five_minute_start_def ohlc_bar_def
      strftime_def py_round_2000)

lemma example_bars:
  "fst (build_bars_from_price 100000000000 2000 ten_ticks)
     = map (\<lambda>i. synthetic_bar 100000000000 2000 (59 - 2 * int i)) (rev [0 ..< 59])
       @ [\<lparr>bar_time = 99900, bar_o = 2000, bar_h = 2000, bar_l = 2000, bar_c = 2000, bar_v = 1100,
           bar_synthetic = False\<rparr>]"
proof -
  have n: "length ten_ticks = 10" by (simp add: ten_ticks_def)
  show ?thesis
    by (simp add: build_bars_from_price_def Let_def n example_real_bars backfill_structure
        include_current_def py_round_2000 last_n_def butlast_append)
qed

text \<open>
  Claim C7, as stated, fails. With ten ticks recorded in the current five-minute interval
  there is one real bar, and the 59 synthetic bars are inserted in front of it: the first
  bar returned is synthetic and precedes the real bar, which is the last. The returned
  times are not ascending either: the bar at position 0 is later than the one at
  position 1.
\<close>

theorem build_bars_counterexample:
  "length (fst (build_bars_from_price 100000000000 2000 ten_ticks)) = 60
   \<and> bar_synthetic (fst (build_bars_from_price 100000000000 2000 ten_ticks) ! 0)
   \<and> \<not> bar_synthetic (fst (build_bars_from_price 100000000000 2000 ten_ticks) ! 59)
   \<and> bar_time (fst (build_bars_from_price 100000000000 2000 ten_ticks) ! 1)
       < bar_time (fst (build_bars_from_price 100000000000 2000 ten_ticks) ! 0)"
  unfolding example_bars
  by (simp add: nth_append rev_nth synthetic_bar_fields strftime_def)

text \<open>
  Claim C7, amended. For every price history and current price,
  \<^verbatim>\<open>build_bars_from_price\<close> returns at most 200 bars, the last 200 of the sequence it
  built. In the returned list the synthetic bars come first: no synthetic bar follows a
  real one, and the real bars are in strictly ascending time order. A bar of the built
  sequence that is cut off is a real bar, older than every bar returned.
\<close>

theorem build_bars_shape:
  "length (fst (build_bars_from_price now cp ph)) \<le> 200
   \<and> synthetic_then_real (fst (build_bars_from_price now cp ph))
   \<and> (let built = include_current cp (backfill now cp (real_bars (snd (build_bars_from_price now cp ph))))
      in fst (build_bars_from_price now cp ph) = last_n 200 built
         \<and> (\<forall>x \<in> set (take (length built - 200) built).
               \<not> bar_synthetic x
               \<and> (\<forall>y \<in> set (fst (build_bars_from_price now cp ph)). bar_time x < bar_time y)))"
proof -
  define ph2 where "ph2 = snd (build_bars_from_price now cp ph)"
  define built where "built = include_current cp (backfill now cp (real_bars ph2))"
  have res: "fst (build_bars_from_price now cp ph) = last_n 200 built"
    unfolding built_def ph2_def by (simp add: build_bars_from_price_def Let_def)
  have len: "length (last_n 200 built) \<le> 200" by (rule length_last_n)
  have "synthetic_then_real built" unfolding built_def by (rule built_shape)
  then have shape: "synthetic_then_real (last_n 200 built)"
    unfolding last_n_def by (rule synthetic_then_real_drop)
  have cut: "\<not> bar_synthetic x \<and> (\<forall>y \<in> set (last_n 200 built). bar_time x < bar_time y)"
    if x: "x \<in> set (take (length built - 200) built)" for x
  proof -
    have "length built > 200" using x by (cases "length built > 200") auto
    then have "max 60 (length (real_bars ph2)) > 200"
      by (simp add: built_def length_include_current length_backfill)
    then have "\<not> length (real_bars ph2) < 60" by simp
    then have b: "built = include_current cp (real_bars ph2)"
      by (simp add: built_def backfill_def)
    have flags: "map bar_synthetic (real_bars ph2) = map bar_synthetic built"
      unfolding b by (rule include_current_flags [symmetric])
    have "list_all (\<lambda>b. \<not> bar_synthetic b) built"
      by (rule same_flags_all_real [OF flags real_bars_real])
    moreover have "x \<in> set built" using x by (rule in_set_takeD)
    ultimately have 1: "\<not> bar_synthetic x" by (simp add: list_all_iff)
    have asc: "sorted_wrt (<) (map bar_time built)"
      unfolding b include_current_times by (rule real_bars_ascending)
    have 2: "bar_time x < bar_time y" if "y \<in> set (last_n 200 built)" for y
      using that unfolding last_n_def by (rule ascending_take_drop [OF asc x])
    from 1 2 show ?thesis by blast
  qed
  show ?thesis
    unfolding Let_def ph2_def [symmetric] built_def [symmetric] res
    using len shape cut by blast
qed

theorem build_bars_shape_witness:
  "length (fst (build_bars_from_price 100000000000 2000 ten_ticks)) \<le> 200
   \<and> synthetic_then_real (fst (build_bars_from_price 100000000000 2000 ten_ticks))
   \<and> length (fst (build_bars_from_price 100000000000 2000 ten_ticks)) = 60"
proof -
  have "length (fst (build_bars_from_price 100000000000 2000 ten_ticks)) = 60"
    unfolding example_bars by simp
  with build_bars_shape [of 100000000000 2000 ten_ticks] show ?thesis by blast
qed

subsection \<open>C8: the bound on the pending queue\<close>

lemma recent_pending_not_due: "filter (\<lambda>p. \<not> spec_due 1700000000 p) recent_pending = recent_pending"
  by (rule filter_True) (auto simp: recent_pending_def spec_due_def)

lemma busy_validated:
  "backtest_pending (snd (validate_backtest 1700000000 io 2000 (replicate 50 flat_bar) busy_scorer))
     = recent_pending"
  by (simp add: validate_backtest_queue busy_scorer_def recent_pending_not_due)
    (simp add: recent_pending_def)

text \<open>
  Claim C8 against the code: the queue is cut to 20 entries at the end of
  \<^verbatim>\<open>validate_backtest\<close>, and \<^verbatim>\<open>generate_signal\<close> appends the entry of a signal change
  after that call and saves at once. With 20 pending signals that are not yet due, a last
  signal BUY and fifty bars that give HOLD, the queue holds 21 entries after the call, and
  so does the file.
\<close>

theorem pending_queue_holds_21:
  "length (backtest_pending busy_scorer) = 20
   \<and> length (backtest_pending
        (snd (generate_signal calm_environment (replicate 50 flat_bar) 2000 busy_scorer))) = 21
   \<and> map_option (\<lambda>saved. length (fst saved))
        (backtest_file
          (snd (generate_signal calm_environment (replicate 50 flat_bar) 2000 busy_scorer)))
       = Some 21"
proof -
  let ?s' = "snd (generate_signal calm_environment (replicate 50 flat_bar) 2000 busy_scorer)"
  let ?s1 = "snd (validate_backtest (env_validate_time calm_environment)
      (env_validate_io calm_environment) 2000 (replicate 50 flat_bar) busy_scorer)"
  have len: "50 \<le> length (replicate 50 flat_bar)" by simp
  have sig: "sr_signal (fst (generate_signal calm_environment (replicate 50 flat_bar) 2000 busy_scorer))
      = ''HOLD''"
    by (simp add: generate_signal_signal [OF len] flat_weighted_score flat_signal)
  have queue: "backtest_pending ?s1 = recent_pending"
    by (simp add: calm_environment_def busy_validated)
  have changed: "last_signal ?s1 \<noteq> Some ''HOLD''"
    by (simp add: validate_backtest_frame busy_scorer_def)
  have io: "env_change_io calm_environment = Io_ok" by (simp add: calm_environment_def)
  have n: "length recent_pending = 20" by (simp add: recent_pending_def)
  have pending: "length (backtest_pending ?s') = 21"
    unfolding generate_signal_state [OF len] sig track_change_changed(2) [OF changed] queue
    using n by simp
  have saved: "map_option (\<lambda>saved. length (fst saved)) (backtest_file ?s') = Some 21"
    unfolding generate_signal_state [OF len] sig track_change_changed_file [OF changed io] queue
    using n by simp
  have "length (backtest_pending busy_scorer) = 20"
    using n by (simp add: busy_scorer_def)
  then show ?thesis using pending saved by blast
qed

subsection \<open>C9: the confidence of a signal\<close>

text \<open>
  Claim C9, as stated, fails: the source truncates to an integer. Fifty bars of a market
  standing still at 2000 give the composite score -12.5, the signal HOLD and an ADX of 25;
  the confidence is 38, where the formula of the claim gives 37.5.
\<close>

theorem confidence_counterexample:
  "50 \<le> length (replicate 50 flat_bar)
   \<and> sr_signal (fst (generate_signal calm_environment (replicate 50 flat_bar) 2000 fresh_scorer))
       = ''HOLD''
   \<and> weighted_score (fst (compute_scores (replicate 50 flat_bar) 2000)) = - 12.5
   \<and> \<not> calc_adx (replicate 50 flat_bar) 14 < 20
   \<and> sr_confidence (fst (generate_signal calm_environment (replicate 50 flat_bar) 2000 fresh_scorer))
       = 38
   \<and> real_of_int
        (sr_confidence (fst (generate_signal calm_environment (replicate 50 flat_bar) 2000 fresh_scorer)))
       \<noteq> max 30 (50 - \<bar>weighted_score (fst (compute_scores (replicate 50 flat_bar) 2000))\<bar>)"
proof -
  have len: "50 \<le> length (replicate 50 flat_bar)" by simp
  have sig: "sr_signal (fst (generate_signal calm_environment (replicate 50 flat_bar) 2000 fresh_scorer))
      = ''HOLD''"
    by (simp add: generate_signal_signal [OF len] flat_weighted_score flat_signal)
  have conf: "sr_confidence (fst (generate_signal calm_environment (replicate 50 flat_bar) 2000 fresh_scorer))
      = 38"
    by (simp add: generate_signal_confidence [OF len] flat_weighted_score flat_signal flat_adx
        adx_filter_def)
  show ?thesis
    unfolding conf sig by (simp add: flat_weighted_score flat_adx)
qed

text \<open>
  Claim C9, amended. For every call of \<^verbatim>\<open>generate_signal\<close> with at least 50 bars, with
  \<open>score\<close> the weighted composite score and \<^verbatim>\<open>int\<close> the truncation towards zero: a BUY or
  SELL has the confidence \<open>min 95 (50 + int (\<bar>score\<bar> / 2))\<close>, a HOLD has
  \<open>max 30 (50 - int \<bar>score\<bar>)\<close>, and when ADX is below 20 the confidence \<open>c\<close> so computed
  is replaced by \<^verbatim>\<open>int(c * 0.7)\<close>, the product being taken in double precision. On the
  confidences that occur this is the integer part of \<open>7 * c / 10\<close>, except that 90 becomes
  62: the float product \<^verbatim>\<open>90 * 0.7\<close> is \<^verbatim>\<open>62.99999999999999\<close>.
\<close>

theorem confidence_formula:
  assumes "50 \<le> length bars"
  shows
    "(let r = fst (generate_signal env bars bid s);
          score = weighted_score (fst (compute_scores bars bid));
          adx = calc_adx bars 14;
          trade = min 95 (50 + py_int (\<bar>score\<bar> / 2));
          hold = max 30 (50 - py_int \<bar>score\<bar>);
          damped = (\<lambda>c. if c = 90 then 62 else 7 * c div 10)
      in (sr_signal r = ''BUY'' \<or> sr_signal r = ''SELL'' \<longrightarrow>
            sr_confidence r = (if adx < 20 then damped trade else trade))
         \<and> (sr_signal r = ''HOLD'' \<longrightarrow>
            sr_confidence r = (if adx < 20 then damped hold else hold))
         \<and> py_int (float_times_0_7 trade) = damped trade
         \<and> py_int (float_times_0_7 hold) = damped hold)"
proof -
  let ?score = "weighted_score (fst (compute_scores bars bid))"
  let ?trade = "min 95 (50 + py_int (\<bar>?score\<bar> / 2))"
  let ?hold = "max 30 (50 - py_int \<bar>?score\<bar>)"
  have "0 \<le> py_int (\<bar>?score\<bar> / 2)" and "0 \<le> py_int \<bar>?score\<bar>"
    by (simp_all add: py_int_def)
  then have t0: "0 \<le> ?trade" and t95: "?trade \<le> 95" and h0: "0 \<le> ?hold" and h95: "?hold \<le> 95"
    by linarith+
  have trade: "py_int (float_times_0_7 ?trade) = (if ?trade = 90 then 62 else 7 * ?trade div 10)"
    by (rule float_times_0_7_int [OF t0 t95])
  have hold: "py_int (float_times_0_7 ?hold) = (if ?hold = 90 then 62 else 7 * ?hold div 10)"
    by (rule float_times_0_7_int [OF h0 h95])
  consider (buy) "?score > 35" | (sell) "?score < - 35" | (hold) "\<not> ?score > 35" "\<not> ?score < - 35"
    by linarith
  then have
    "(sr_signal (fst (generate_signal env bars bid s)) = ''BUY''
        \<or> sr_signal (fst (generate_signal env bars bid s)) = ''SELL'' \<longrightarrow>
      sr_confidence (fst (generate_signal env bars bid s))
        = (if calc_adx bars 14 < 20 then py_int (float_times_0_7 ?trade) else ?trade))
     \<and> (sr_signal (fst (generate_signal env bars bid s)) = ''HOLD'' \<longrightarrow>
      sr_confidence (fst (generate_signal env bars bid s))
        = (if calc_adx bars 14 < 20 then py_int (float_times_0_7 ?hold) else ?hold))"
  proof cases
    case buy
    then have "determine_signal ?score = (''BUY'', ?trade)"
      by (simp add: determine_signal_def)
    then show ?thesis
      by (simp add: generate_signal_signal [OF assms] generate_signal_confidence [OF assms]
          adx_filter_def)
  next
    case sell
    then have "determine_signal ?score = (''SELL'', ?trade)"
      by (simp add: determine_signal_def)
    then show ?thesis
      by (simp add: generate_signal_signal [OF assms] generate_signal_confidence [OF assms]
          adx_filter_def)
  next
    case hold
    then have "determine_signal ?score = (''HOLD'', ?hold)"
      by (simp add: determine_signal_def)
    then show ?thesis
      by (simp add: generate_signal_signal [OF assms] generate_signal_confidence [OF assms]
          adx_filter_def)
  qed
  then show ?thesis
    unfolding Let_def trade hold by simp
qed

theorem confidence_formula_witness:
  "50 \<le> length (replicate 50 flat_bar)
   \<and> sr_signal (fst (generate_signal calm_environment (replicate 50 flat_bar) 2000 fresh_scorer))
       = ''HOLD''
   \<and> \<not> calc_adx (replicate 50 flat_bar) 14 < 20
   \<and> sr_confidence (fst (generate_signal calm_environment (replicate 50 flat_bar) 2000 fresh_scorer))
       = max 30 (50 - py_int \<bar>- 12.5\<bar>)
   \<and> 50 \<le> length ranging_bars
   \<and> sr_signal (fst (generate_signal calm_environment ranging_bars 2000 fresh_scorer)) = ''HOLD''
   \<and> calc_adx ranging_bars 14 < 20
   \<and> max 30 (50 - py_int \<bar>- 12.5\<bar>) = 38
   \<and> sr_confidence (fst (generate_signal calm_environment ranging_bars 2000 fresh_scorer)) = 26
   \<and> fst (adx_filter 14.3 (90, [])) = 62"
proof -
  have len: "50 \<le> length (replicate 50 flat_bar)" by simp
  have sig: "sr_signal (fst (generate_signal calm_environment (replicate 50 flat_bar) 2000 fresh_scorer))
      = ''HOLD''"
    by (simp add: generate_signal_signal [OF len] flat_weighted_score flat_signal)
  have len': "50 \<le> length ranging_bars" by (simp add: ranging_length)
  have sig': "sr_signal (fst (generate_signal calm_environment ranging_bars 2000 fresh_scorer))
      = ''HOLD''"
    by (simp add: generate_signal_signal [OF len'] ranging_weighted_score flat_signal)
  have ninety: "fst (adx_filter 14.3 (90, [])) = 62"
    using float_times_0_7_int [of 90] by (simp add: adx_filter_def)
  from confidence_formula [OF len, of calm_environment 2000 fresh_scorer] sig
  have flat: "sr_confidence
      (fst (generate_signal calm_environment (replicate 50 flat_bar) 2000 fresh_scorer))
      = max 30 (50 - py_int \<bar>- 12.5\<bar>)"
    by (simp add: Let_def flat_weighted_score flat_adx)
  from confidence_formula [OF len', of calm_environment 2000 fresh_scorer] sig'
  have ranging: "sr_confidence (fst (generate_signal calm_environment ranging_bars 2000 fresh_scorer))
      = 26"
    by (simp add: Let_def ranging_weighted_score ranging_adx py_int_def)
  show ?thesis
    unfolding flat ranging sig sig' ninety
    by (simp add: ranging_length flat_adx ranging_adx py_int_def)
qed

subsection \<open>C10: the first signal after a start\<close>

text \<open>
  Claim C10. When the last-signal memory is \<^verbatim>\<open>None\<close>, as it is after a start, a call of
  \<^verbatim>\<open>generate_signal\<close> with at least 50 bars counts as a signal change, whichever of BUY,
  SELL and HOLD it emits: the total of changes and the counter of the emitted signal go up
  by one, a pending entry for the signal is appended to the queue that
  \<^verbatim>\<open>validate_backtest\<close> left, the backtest state is written (the file holds the new queue
  and the counters when the write succeeds), a history entry with the previous signal
  \<^verbatim>\<open>None\<close> is appended, and the memory now holds the emitted signal.
\<close>

theorem first_signal_is_a_change:
  assumes "last_signal s = None" and "50 \<le> length bars"
  shows
    "(let r = fst (generate_signal env bars bid s);
          s' = snd (generate_signal env bars bid s);
          s1 = snd (validate_backtest (env_validate_time env) (env_validate_io env) bid bars s)
      in (sr_signal r = ''BUY'' \<or> sr_signal r = ''SELL'' \<or> sr_signal r = ''HOLD'')
         \<and> st_total (signal_stats s') = st_total (signal_stats s) + 1
         \<and> st_buy (signal_stats s')
             = st_buy (signal_stats s) + (if sr_signal r = ''BUY'' then 1 else 0)
         \<and> st_sell (signal_stats s')
             = st_sell (signal_stats s) + (if sr_signal r = ''SELL'' then 1 else 0)
         \<and> st_hold (signal_stats s')
             = st_hold (signal_stats s) + (if sr_signal r = ''HOLD'' then 1 else 0)
         \<and> backtest_pending s' = backtest_pending s1 @
               [\<lparr>ps_signal = sr_signal r, ps_price = bid, ps_timestamp = env_pending_time env,
                 ps_time = env_now_time env, ps_confidence = sr_confidence r\<rparr>]
         \<and> (env_change_io env = Io_ok \<longrightarrow>
               backtest_file s' = Some (backtest_pending s', backtest_results s'))
         \<and> signal_history s' \<noteq> []
         \<and> he_signal (last (signal_history s')) = sr_signal r
         \<and> he_prev_signal (last (signal_history s')) = None
         \<and> last_signal s' = Some (sr_signal r))"
proof -
  define r where "r = fst (generate_signal env bars bid s)"
  define s' where "s' = snd (generate_signal env bars bid s)"
  define s1 where
    "s1 = snd (validate_backtest (env_validate_time env) (env_validate_io env) bid bars s)"
  define score where "score = weighted_score (fst (compute_scores bars bid))"
  define reasons where "reasons = snd (adx_filter (calc_adx bars 14)
     (snd (determine_signal score), snd (compute_scores bars bid)))"
  have none: "last_signal s1 = None"
    using assms(1) by (simp add: s1_def validate_backtest_frame)
  then have changed: "last_signal s1 \<noteq> Some (sr_signal r)" by simp
  have s': "s' = track_change env (sr_signal r) (sr_confidence r) score reasons bid s1"
    unfolding s'_def r_def s1_def score_def reasons_def
    by (rule generate_signal_state [OF assms(2)])
  have kinds: "sr_signal r = ''BUY'' \<or> sr_signal r = ''SELL'' \<or> sr_signal r = ''HOLD''"
    unfolding r_def generate_signal_signal [OF assms(2)] by (rule determine_signal_kinds)
  have stats: "signal_stats s'
      = count_signal (sr_signal r) ((signal_stats s)\<lparr>st_total := st_total (signal_stats s) + 1\<rparr>)"
    unfolding s' track_change_changed(1) [OF changed] by (simp add: s1_def validate_backtest_frame)
  have total: "st_total (signal_stats s') = st_total (signal_stats s) + 1"
    unfolding stats by (simp add: count_signal_def)
  have buy: "st_buy (signal_stats s')
      = st_buy (signal_stats s) + (if sr_signal r = ''BUY'' then 1 else 0)"
    unfolding stats by (simp add: count_signal_def)
  have sell: "st_sell (signal_stats s')
      = st_sell (signal_stats s) + (if sr_signal r = ''SELL'' then 1 else 0)"
    unfolding stats by (simp add: count_signal_def)
  have hold: "st_hold (signal_stats s')
      = st_hold (signal_stats s) + (if sr_signal r = ''HOLD'' then 1 else 0)"
    unfolding stats using kinds by (auto simp: count_signal_def)
  have pending: "backtest_pending s' = backtest_pending s1 @
      [\<lparr>ps_signal = sr_signal r, ps_price = bid, ps_timestamp = env_pending_time env,
        ps_time = env_now_time env, ps_confidence = sr_confidence r\<rparr>]"
    unfolding s' by (rule track_change_changed(2) [OF changed])
  have results: "backtest_results s' = backtest_results s1"
    unfolding s' by (rule track_change_changed(3) [OF changed])
  have saved: "backtest_file s' = Some (backtest_pending s', backtest_results s')"
    if "env_change_io env = Io_ok"
    unfolding pending results unfolding s' by (rule track_change_changed_file [OF changed that])
  let ?h = "signal_history s1 @
     [\<lparr>he_time = env_now_time env, he_date = env_now_date env, he_signal = sr_signal r,
       he_price = py_round bid 2, he_confidence = sr_confidence r,
       he_score = py_round score 1, he_reasons = take 3 reasons, he_prev_signal = None\<rparr>]"
  have history: "signal_history s' = (if length ?h > 100 then last_n 100 ?h else ?h)"
    unfolding s' track_change_changed(5) [OF changed] Let_def none by (rule refl)
  have "?h \<noteq> []" by simp
  then have "(if length ?h > 100 then last_n 100 ?h else ?h) \<noteq> []
      \<and> last (if length ?h > 100 then last_n 100 ?h else ?h) = last ?h"
    by (rule capped_last) simp
  then have hist: "signal_history s' \<noteq> []" "last (signal_history s') = last ?h"
    unfolding history by blast+
  have hsig: "he_signal (last (signal_history s')) = sr_signal r"
    and hprev: "he_prev_signal (last (signal_history s')) = None"
    unfolding hist(2) by simp_all
  have memory: "last_signal s' = Some (sr_signal r)"
    unfolding s' by (rule track_change_changed(4) [OF changed])
  show ?thesis
    unfolding Let_def r_def [symmetric] s'_def [symmetric] s1_def [symmetric]
    using kinds total buy sell hold pending saved hist(1) hsig hprev memory by blast
qed

theorem first_signal_is_a_change_witness:
  "last_signal fresh_scorer = None
   \<and> 50 \<le> length (replicate 50 flat_bar)
   \<and> env_change_io calm_environment = Io_ok
   \<and> sr_signal (fst (generate_signal calm_environment (replicate 50 flat_bar) 2000 fresh_scorer))
       = ''HOLD''
   \<and> st_total (signal_stats
        (snd (generate_signal calm_environment (replicate 50 flat_bar) 2000 fresh_scorer))) = 1
   \<and> st_hold (signal_stats
        (snd (generate_signal calm_environment (replicate 50 flat_bar) 2000 fresh_scorer))) = 1
   \<and> backtest_pending
        (snd (generate_signal calm_environment (replicate 50 flat_bar) 2000 fresh_scorer))
       = [\<lparr>ps_signal = ''HOLD'', ps_price = 2000, ps_timestamp = 1700000000,
           ps_time = ''10:00:00'', ps_confidence = 38\<rparr>]
   \<and> backtest_file
        (snd (generate_signal calm_environment (replicate 50 flat_bar) 2000 fresh_scorer))
       = Some ([\<lparr>ps_signal = ''HOLD'', ps_price = 2000, ps_timestamp = 1700000000,
                  ps_time = ''10:00:00'', ps_confidence = 38\<rparr>],
               backtest_results
                 (snd (generate_signal calm_environment (replicate 50 flat_bar) 2000 fresh_scorer)))
   \<and> he_prev_signal (last (signal_history
        (snd (generate_signal calm_environment (replicate 50 flat_bar) 2000 fresh_scorer)))) = None
   \<and> last_signal
        (snd (generate_signal calm_environment (replicate 50 flat_bar) 2000 fresh_scorer))
       = Some ''HOLD''"
proof -
  have h1: "last_signal fresh_scorer = None" by (simp add: fresh_scorer_def)
  have h2: "50 \<le> length (replicate 50 flat_bar)" by simp
  have io: "env_change_io calm_environment = Io_ok" by (simp add: calm_environment_def)
  have sig: "sr_signal (fst (generate_signal calm_environment (replicate 50 flat_bar) 2000 fresh_scorer))
      = ''HOLD''"
    by (simp add: generate_signal_signal [OF h2] flat_weighted_score flat_signal)
  have conf: "sr_confidence (fst (generate_signal calm_environment (replicate 50 flat_bar) 2000 fresh_scorer))
      = 38"
    by (simp add: generate_signal_confidence [OF h2] flat_weighted_score flat_signal flat_adx
        adx_filter_def)
  have queue: "backtest_pending (snd (validate_backtest (env_validate_time calm_environment)
      (env_validate_io calm_environment) 2000 (replicate 50 flat_bar) fresh_scorer)) = []"
    by (simp add: validate_backtest_def fresh_scorer_def)
  have stats: "st_total (signal_stats fresh_scorer) = 0" "st_hold (signal_stats fresh_scorer) = 0"
    by (simp_all add: fresh_scorer_def)
  have env: "env_pending_time calm_environment = 1700000000"
    "env_now_time calm_environment = ''10:00:00''"
    by (simp_all add: calm_environment_def)
  from first_signal_is_a_change [OF h1 h2, of calm_environment 2000]
  show ?thesis
    unfolding Let_def sig conf queue stats env using h1 h2 io sig by simp
qed

end
